(* ===== verification/Prelude.thy ===== *)
theory Prelude
  imports Complex_Main "HOL-Library.AList" "HOL-Library.Word"
    "HOL-Library.Char_ord" "HOL-Library.List_Lexorder"
begin

text \<open>
  Shared vocabulary of the development: machine types, C++ exceptions and the outcome of a call,
  correctly rounded double arithmetic, string helpers of the standard library, and the generic
  lemmas on lists and association lists that the components use.

  An \<open>std::unordered_map\<close> is an association list with distinct keys; its order is the iteration
  order, which no statement relies on.
\<close>

section \<open>Machine types\<close>

type_synonym u64 = "64 word"
type_synonym u16 = "16 word"
type_synonym time_point = int \<comment> \<open>nanoseconds since the clock's epoch\<close>
type_synonym duration = int \<comment> \<open>nanoseconds\<close>
type_synonym double = real \<comment> \<open>a value of type double; see the rounding function below\<close>

definition seconds :: "int \<Rightarrow> duration" where
  "seconds s = s * 1000000000"

definition trunc_div :: "int \<Rightarrow> int \<Rightarrow> int" where
  \<comment> \<open>integer division of C++, as in \<open>duration_cast\<close>\<close>
  "trunc_div a b = sgn a * sgn b * (\<bar>a\<bar> div \<bar>b\<bar>)"

lemma trunc_div_nonneg: "0 \<le> a \<Longrightarrow> 0 < b \<Longrightarrow> trunc_div a b = a div b"
  by (cases "a = 0") (simp_all add: trunc_div_def)

definition cast_int :: "int \<Rightarrow> int" where
  \<comment> \<open>conversion of an integer to the 32-bit type int\<close>
  "cast_int v = signed_take_bit 31 v"

lemma cast_int_small: "- (2 ^ 31) \<le> v \<Longrightarrow> v < 2 ^ 31 \<Longrightarrow> cast_int v = v"
  unfolding cast_int_def by (rule signed_take_bit_int_eq_self) auto

named_theorems outcome_simps \<open>elimination of the outcome monad\<close>
named_theorems linked_intros \<open>preservation rules of the map/list link\<close>
named_theorems inv_intros \<open>invariant preservation, one rule per operation\<close>

section \<open>Exceptions and outcomes\<close>

text \<open>
  The exception classes the program distinguishes in its \<open>catch\<close> clauses, each with its \<open>what()\<close>
  text. \<open>Undefined\<close> is undefined behaviour: a dereferenced \<open>end()\<close> or an invalid list iterator.
\<close>

datatype exn =
    Invalid_argument string
  | Out_of_range string
  | Runtime_error string
  | Json_exception string
  | Other_exception string

fun what :: "exn \<Rightarrow> string" where
  "what (Invalid_argument m) = m"
| "what (Out_of_range m) = m"
| "what (Runtime_error m) = m"
| "what (Json_exception m) = m"
| "what (Other_exception m) = m"

datatype 'a outcome = Return 'a | Throw exn | Undefined

fun obind :: "'a outcome \<Rightarrow> ('a \<Rightarrow> 'b outcome) \<Rightarrow> 'b outcome" where
  "obind (Return x) f = f x"
| "obind (Throw e) f = Throw e"
| "obind Undefined f = Undefined"

fun catch_exn :: "'a outcome \<Rightarrow> (exn \<Rightarrow> 'a outcome) \<Rightarrow> 'a outcome" where
  "catch_exn (Return x) h = Return x"
| "catch_exn (Throw e) h = h e"
| "catch_exn Undefined h = Undefined"

fun of_sum :: "exn + 'a \<Rightarrow> 'a outcome" where
  "of_sum (Inr x) = Return x"
| "of_sum (Inl e) = Throw e"

fun of_option :: "'a option \<Rightarrow> 'a outcome" where
  "of_option (Some x) = Return x"
| "of_option None = Undefined"

lemma obind_assoc [outcome_simps]: "obind (obind m f) g = obind m (\<lambda>x. obind (f x) g)"
  by (cases m) auto

lemma obind_Return_iff [outcome_simps]:
  "obind m f = Return y \<longleftrightarrow> (\<exists>x. m = Return x \<and> f x = Return y)"
  by (cases m) auto

lemma obind_Throw_iff [outcome_simps]:
  "obind m f = Throw e \<longleftrightarrow> m = Throw e \<or> (\<exists>x. m = Return x \<and> f x = Throw e)"
  by (cases m) auto

lemma obind_Undefined_iff:
  "obind m f = Undefined \<longleftrightarrow> m = Undefined \<or> (\<exists>x. m = Return x \<and> f x = Undefined)"
  by (cases m) auto

lemma of_sum_defined [simp]: "of_sum m \<noteq> Undefined"
  by (cases m) auto

lemma of_sum_Return_iff [outcome_simps]: "of_sum m = Return x \<longleftrightarrow> m = Inr x"
  by (cases m) auto

lemma of_option_Return_iff [outcome_simps]: "of_option m = Return x \<longleftrightarrow> m = Some x"
  by (cases m) auto

section \<open>Double arithmetic\<close>

text \<open>
  Every arithmetic operation on doubles is its exact result followed by a rounding function
  \<open>fl\<close>. What the program relies on is documented IEEE-754 behaviour: rounding is monotone and
  leaves every integer up to \<open>2^53\<close> alone.
\<close>

definition ieee_rounding :: "(real \<Rightarrow> real) \<Rightarrow> bool" where
  "ieee_rounding fl \<longleftrightarrow> mono fl \<and> (\<forall>k::int. \<bar>k\<bar> \<le> 2 ^ 53 \<longrightarrow> fl (of_int k) = of_int k)"

lemma ieee_rounding_id: "ieee_rounding (\<lambda>x. x)"
  by (simp add: ieee_rounding_def mono_def)

lemma ieee_mono: "ieee_rounding fl \<Longrightarrow> x \<le> y \<Longrightarrow> fl x \<le> fl y"
  by (auto simp: ieee_rounding_def dest: monoD)

lemma ieee_of_nat: "ieee_rounding fl \<Longrightarrow> n \<le> 2 ^ 53 \<Longrightarrow> fl (real n) = real n"
proof -
  assume fl: "ieee_rounding fl" and n: "n \<le> 2 ^ 53"
  from n have "int n \<le> int (2 ^ 53)" by (simp only: of_nat_le_iff)
  then have "\<bar>int n\<bar> \<le> 2 ^ 53" by simp
  with fl have "fl (of_int (int n)) = of_int (int n)" unfolding ieee_rounding_def by blast
  then show ?thesis by simp
qed

lemma ieee_zero: "ieee_rounding fl \<Longrightarrow> fl 0 = 0"
  using ieee_of_nat [of fl 0] by simp

lemma ieee_nonneg: "ieee_rounding fl \<Longrightarrow> 0 \<le> x \<Longrightarrow> 0 \<le> fl x"
  using ieee_mono [of fl 0 x] ieee_zero [of fl] by simp

section \<open>Lists\<close>

text \<open>\<open>pop_front\<close> while the predicate holds is \<open>dropWhile\<close>; on a sorted deque it is a filter.\<close>

lemma dropWhile_sorted_filter:
  assumes "sorted xs" and "\<And>x y. x \<le> y \<Longrightarrow> P y \<Longrightarrow> P x"
  shows "dropWhile P xs = filter (\<lambda>x. \<not> P x) xs"
  using assms(1)
proof (induction xs)
  case Nil
  then show ?case by simp
next
  case (Cons x xs)
  show ?case
  proof (cases "P x")
    case True
    with Cons show ?thesis by simp
  next
    case False
    with Cons.prems assms(2) have "\<forall>y\<in>set xs. \<not> P y" by auto
    then have "filter (\<lambda>x. \<not> P x) xs = xs" by (simp add: filter_id_conv)
    with False show ?thesis by simp
  qed
qed

lemma sorted_dropWhile: "sorted xs \<Longrightarrow> sorted (dropWhile P xs)"
  by (metis dropWhile_eq_drop sorted_wrt_drop)

lemma filter_neq_remove1: "distinct xs \<Longrightarrow> filter (\<lambda>y. y \<noteq> x) xs = remove1 x xs"
  by (induction xs) (auto simp: filter_id_conv remove1_idem)

lemma sum_list_map_delete:
  fixes f :: "'k \<times> 'v \<Rightarrow> 'a::comm_ring_1"
  assumes "distinct (map fst m)" and "map_of m k = Some v"
  shows "sum_list (map f (AList.delete k m)) = sum_list (map f m) - f (k, v)"
  using assms
proof (induction m)
  case Nil
  then show ?case by simp
next
  case (Cons p m)
  obtain k' v' where p: "p = (k', v')" by (cases p)
  show ?case
  proof (cases "k' = k")
    case True
    with Cons.prems p have "k \<notin> fst ` set m" and "v' = v" by auto
    then have "AList.delete k m = m" by (simp add: AList.delete_idem)
    with True p \<open>v' = v\<close> show ?thesis by simp
  next
    case False
    with Cons p show ?thesis by (simp add: algebra_simps)
  qed
qed

lemma sum_list_map_update:
  fixes f :: "'k \<times> 'v \<Rightarrow> 'a::comm_ring_1"
  assumes "distinct (map fst m)" and "map_of m k = Some v"
  shows "sum_list (map f (AList.update k v' m)) = sum_list (map f m) - f (k, v) + f (k, v')"
  using assms
proof (induction m)
  case Nil
  then show ?case by simp
next
  case (Cons p m)
  obtain k' w where p: "p = (k', w)" by (cases p)
  show ?case
  proof (cases "k' = k")
    case True
    with Cons.prems p show ?thesis by simp
  next
    case False
    with Cons p show ?thesis by (simp add: algebra_simps)
  qed
qed

lemma fst_set_delete [simp]: "fst ` set (AList.delete k m) = fst ` set m - {k}"
  by (metis AList.delete_keys list.set_map set_removeAll)

lemma distinct_fst_delete [simp]: "distinct (map fst m) \<Longrightarrow> distinct (map fst (AList.delete k m))"
  by (simp add: AList.delete_keys distinct_removeAll)

lemma map_of_fst_mem: "map_of m k = Some v \<Longrightarrow> k \<in> fst ` set m"
  by (metis dom_map_of_conv_image_fst domI)

lemma delete_append:
  "k \<notin> fst ` set m \<Longrightarrow> k \<notin> fst ` set m' \<Longrightarrow> AList.delete k (m @ (k, v) # m') = m @ m'"
  by (induction m) auto

lemma length_delete_mem:
  "distinct (map fst m) \<Longrightarrow> k \<in> fst ` set m \<Longrightarrow> length (AList.delete k m) = length m - 1"
  by (metis AList.delete_keys distinct_remove1_removeAll length_map length_remove1 list.set_map)

lemma alist_delete_last:
  assumes "distinct (map fst m)" and "m \<noteq> []"
  shows "AList.delete (fst (last m)) m = butlast m"
proof -
  have m: "m = butlast m @ [last m]" using assms(2) by simp
  with assms(1) have "fst (last m) \<notin> fst ` set (butlast m)"
    by (metis distinct_append disjoint_iff list.set_intros(1) list.simps(9) map_append set_map)
  then have "filter (\<lambda>(k, v). fst (last m) \<noteq> k) (butlast m) = butlast m"
    by (auto simp: filter_id_conv intro: rev_image_eqI)
  moreover have "filter (\<lambda>(k, v). fst (last m) \<noteq> k) m =
      filter (\<lambda>(k, v). fst (last m) \<noteq> k) (butlast m @ [last m])" using m by simp
  ultimately show ?thesis by (simp add: AList.delete_eq case_prod_beta)
qed

lemma map_le_Some_iff: "m \<subseteq>\<^sub>m m' \<longleftrightarrow> (\<forall>k v. m k = Some v \<longrightarrow> m' k = Some v)"
  by (auto simp: map_le_def dom_def)

lemma map_fst_update_mem:
  "k \<in> fst ` set m \<Longrightarrow> map fst (AList.update k v m) = map fst m"
  by (simp add: AList.update_keys image_image)

lemma length_update_mem: "k \<in> fst ` set m \<Longrightarrow> length (AList.update k v m) = length m"
  by (metis length_map map_fst_update_mem)

section \<open>Strings of the standard library\<close>

definition find_first_not_of :: "char set \<Rightarrow> string \<Rightarrow> nat option" where
  "find_first_not_of cs s =
     (let n = length (takeWhile (\<lambda>c. c \<in> cs) s) in if n < length s then Some n else None)"

definition find_last_not_of :: "char set \<Rightarrow> string \<Rightarrow> nat option" where
  "find_last_not_of cs s =
     (let n = length (takeWhile (\<lambda>c. c \<in> cs) (rev s))
      in if n < length s then Some (length s - 1 - n) else None)"

definition find_char :: "char \<Rightarrow> string \<Rightarrow> nat option" where
  "find_char c s = (let n = length (takeWhile (\<lambda>x. x \<noteq> c) s) in if n < length s then Some n else None)"

definition substr :: "string \<Rightarrow> nat \<Rightarrow> nat \<Rightarrow> string" where
  \<comment> \<open>\<open>s.substr(pos, n)\<close> for \<open>pos \<le> s.size()\<close>\<close>
  "substr s pos n = take n (drop pos s)"

definition starts_with :: "string \<Rightarrow> string \<Rightarrow> bool" where
  "starts_with s p \<longleftrightarrow> take (length p) s = p"

definition is_xdigit :: "char \<Rightarrow> bool" where
  "is_xdigit c \<longleftrightarrow> (let n = (of_char c :: nat) in
     (48 \<le> n \<and> n \<le> 57) \<or> (65 \<le> n \<and> n \<le> 70) \<or> (97 \<le> n \<and> n \<le> 102))"

definition to_upper :: "char \<Rightarrow> char" where
  "to_upper c = (let n = (of_char c :: nat) in if 97 \<le> n \<and> n \<le> 122 then char_of (n - 32) else c)"

fun nat_digits :: "nat \<Rightarrow> string" where
  "nat_digits n = (if n < 10 then [char_of (48 + n)] else nat_digits (n div 10) @ [char_of (48 + n mod 10)])"

declare nat_digits.simps [simp del]

definition int_to_string :: "int \<Rightarrow> string" where
  \<comment> \<open>\<open>std::to_string\<close>\<close>
  "int_to_string v = (if v < 0 then CHR ''-'' # nat_digits (nat (- v)) else nat_digits (nat v))"

end
