(* ===== verification/Std_List.thy ===== *)
theory Std_List
  imports Prelude "HOL-Library.Multiset"
begin

text \<open>
  \<open>std::list\<close> with its iterators, as the cache shard and the rate limiter use it: a list of nodes,
  each with an identity that stays the same while the node moves. An iterator is a node's
  identity. Using an iterator whose node is gone is undefined behaviour.

  Both components keep an \<open>std::unordered_map\<close> whose entries hold an iterator into such a list.
  \<open>linked\<close> says that map and list agree; the lemmas here keep it under every operation, for any
  entry type, so that both components share them.
\<close>

record 'a std_list =
  nodes :: "(nat \<times> 'a) list"
  next_node :: nat

definition list_empty :: "'a std_list" where
  "list_empty = \<lparr>nodes = [], next_node = 0\<rparr>"

definition list_values :: "'a std_list \<Rightarrow> 'a list" where
  "list_values l = map snd (nodes l)"

definition push_front :: "'a \<Rightarrow> 'a std_list \<Rightarrow> 'a std_list" where
  "push_front x l = l\<lparr>nodes := (next_node l, x) # nodes l, next_node := Suc (next_node l)\<rparr>"

definition list_begin :: "'a std_list \<Rightarrow> nat" where
  "list_begin l = (case nodes l of [] \<Rightarrow> next_node l | n # _ \<Rightarrow> fst n)"

definition list_back :: "'a std_list \<Rightarrow> 'a option" where
  "list_back l = (if nodes l = [] then None else Some (snd (last (nodes l))))"

definition pop_back :: "'a std_list \<Rightarrow> 'a std_list option" where
  "pop_back l = (if nodes l = [] then None else Some (l\<lparr>nodes := butlast (nodes l)\<rparr>))"

definition list_erase :: "nat \<Rightarrow> 'a std_list \<Rightarrow> 'a std_list option" where
  "list_erase it l =
     (if it \<in> fst ` set (nodes l) then Some (l\<lparr>nodes := AList.delete it (nodes l)\<rparr>) else None)"

definition splice_front :: "nat \<Rightarrow> 'a std_list \<Rightarrow> 'a std_list option" where
  "splice_front it l =
     (case map_of (nodes l) it of
        None \<Rightarrow> None
      | Some x \<Rightarrow> Some (l\<lparr>nodes := (it, x) # AList.delete it (nodes l)\<rparr>))"

definition list_wf :: "'a std_list \<Rightarrow> bool" where
  "list_wf l \<longleftrightarrow> distinct (map fst (nodes l)) \<and> (\<forall>i\<in>fst ` set (nodes l). i < next_node l)"

definition linked :: "('e \<Rightarrow> nat) \<Rightarrow> ('k \<times> 'e) list \<Rightarrow> 'k std_list \<Rightarrow> bool" where
  "linked it m l \<longleftrightarrow>
     list_wf l \<and> distinct (map fst m) \<and> distinct (list_values l) \<and>
     set (list_values l) = fst ` set m \<and>
     (\<forall>k e. map_of m k = Some e \<longrightarrow> map_of (nodes l) (it e) = Some k)"

lemma linked_empty [linked_intros]: "linked it [] list_empty"
  by (simp add: linked_def list_empty_def list_wf_def list_values_def)

lemma linked_distinct: "linked it m l \<Longrightarrow> distinct (map fst m)"
  by (simp add: linked_def)

lemma linked_length: "linked it m l \<Longrightarrow> length (list_values l) = length m"
  by (metis linked_def distinct_card length_map set_map)

lemma linked_keys: "linked it m l \<Longrightarrow> set (list_values l) = fst ` set m"
  by (simp add: linked_def)

lemma linked_node: "linked it m l \<Longrightarrow> map_of m k = Some e \<Longrightarrow> map_of (nodes l) (it e) = Some k"
  by (simp add: linked_def)

lemma linked_empty_iff: "linked it m l \<Longrightarrow> nodes l = [] \<longleftrightarrow> m = []"
  using linked_length [of it m l] by (auto simp: list_values_def)

text \<open>Removing one node of a list whose values are distinct removes exactly its value.\<close>

lemma values_delete:
  assumes "distinct (map fst ns)" and "distinct (map snd ns)" and "map_of ns i = Some x"
  shows "map snd (AList.delete i ns) = remove1 x (map snd ns)"
  using assms
proof (induction ns)
  case Nil
  then show ?case by simp
next
  case (Cons n ns)
  obtain j y where n: "n = (j, y)" by (cases n)
  show ?case
  proof (cases "j = i")
    case True
    with Cons.prems n have "i \<notin> fst ` set ns" and "y = x" by auto
    with True n show ?thesis by (simp add: AList.delete_idem)
  next
    case False
    with Cons.prems n have ix: "map_of ns i = Some x" by simp
    then have "x \<in> snd ` set ns" using map_of_SomeD by force
    with Cons.prems(2) n have "y \<noteq> x" by auto
    with False Cons n ix show ?thesis by simp
  qed
qed

lemma linked_values_distinct: "linked it m l \<Longrightarrow> distinct (map snd (nodes l))"
  by (simp add: linked_def list_values_def)

lemma linked_ids_distinct: "linked it m l \<Longrightarrow> distinct (map fst (nodes l))"
  by (simp add: linked_def list_wf_def)

lemma node_ids_inj:
  assumes "distinct (map snd ns)" and "map_of ns i = Some x" and "map_of ns j = Some x"
  shows "i = j"
proof -
  have "(i, x) \<in> set ns" and "(j, x) \<in> set ns" using assms(2,3) by (auto dest: map_of_SomeD)
  with assms(1) show ?thesis by (metis distinct_map inj_onD prod.inject snd_conv)
qed

lemma linked_it_inj:
  assumes "linked it m l" and "map_of m k = Some e" and "map_of m k' = Some e'" and "k \<noteq> k'"
  shows "it e \<noteq> it e'"
  using assms linked_node by (metis option.inject)

lemma list_wf_delete: "list_wf l \<Longrightarrow> list_wf (l\<lparr>nodes := AList.delete i (nodes l)\<rparr>)"
  by (auto simp: list_wf_def)

lemma list_wf_delete_front:
  "list_wf l \<Longrightarrow> i \<in> fst ` set (nodes l) \<Longrightarrow>
     list_wf (l\<lparr>nodes := (i, x) # AList.delete i (nodes l)\<rparr>)"
  by (auto simp: list_wf_def)

text \<open>Move-to-front: \<open>splice(begin(), list, it)\<close>.\<close>

lemma linked_splice:
  assumes l: "linked it m l" and e: "map_of m k = Some e"
  shows "\<exists>l'. splice_front (it e) l = Some l' \<and> linked it m l' \<and>
              list_values l' = k # remove1 k (list_values l)"
proof -
  let ?ns = "(it e, k) # AList.delete (it e) (nodes l)"
  from l e have n: "map_of (nodes l) (it e) = Some k" by (rule linked_node)
  then have in_ids: "it e \<in> fst ` set (nodes l)" by (rule map_of_fst_mem)
  have s: "splice_front (it e) l = Some (l\<lparr>nodes := ?ns\<rparr>)"
    by (simp add: splice_front_def n)
  have vals: "map snd (AList.delete (it e) (nodes l)) = remove1 k (map snd (nodes l))"
    using values_delete [OF linked_ids_distinct [OF l] linked_values_distinct [OF l] n] .
  have k: "k \<in> set (map snd (nodes l))" using n map_of_SomeD by force
  have wf: "list_wf (l\<lparr>nodes := ?ns\<rparr>)"
    using l in_ids by (auto simp: linked_def intro!: list_wf_delete_front)
  have mo: "map_of ?ns = map_of (nodes l)"
    using n by (auto simp: fun_eq_iff AList.delete_conv')
  have "linked it m (l\<lparr>nodes := ?ns\<rparr>)"
    using l wf vals k unfolding linked_def list_values_def
    by (auto simp: mo simp del: map_of.simps)
  with s vals show ?thesis by (auto simp: list_values_def)
qed

text \<open>Erasing the node an entry points to, together with the entry.\<close>

lemma linked_erase:
  assumes l: "linked it m l" and e: "map_of m k = Some e"
  shows "\<exists>l'. list_erase (it e) l = Some l' \<and> linked it (AList.delete k m) l' \<and>
              list_values l' = remove1 k (list_values l)"
proof -
  let ?l = "l\<lparr>nodes := AList.delete (it e) (nodes l)\<rparr>"
  from l e have n: "map_of (nodes l) (it e) = Some k" by (rule linked_node)
  then have s: "list_erase (it e) l = Some ?l"
    by (auto simp: list_erase_def dest: map_of_SomeD intro: rev_image_eqI)
  have vals: "list_values ?l = remove1 k (list_values l)"
    using values_delete [OF linked_ids_distinct [OF l] linked_values_distinct [OF l] n]
    by (simp add: list_values_def)
  have wf: "list_wf ?l"
    using l by (auto simp: linked_def intro: list_wf_delete)
  have it: "map_of (nodes ?l) (it e') = Some k'" if "map_of (AList.delete k m) k' = Some e'" for k' e'
  proof -
    from that have ne: "k' \<noteq> k" and e': "map_of m k' = Some e'"
      by (auto simp: AList.delete_conv' split: if_splits)
    from linked_it_inj [OF l e' e ne] linked_node [OF l e'] show ?thesis
      by (simp add: AList.delete_conv')
  qed
  have "linked it (AList.delete k m) ?l"
    using l wf it unfolding linked_def vals by (simp add: set_remove1_eq)
  with s vals show ?thesis by blast
qed

text \<open>Inserting a new key at the front, its entry holding \<open>begin()\<close>.\<close>

lemma linked_push:
  assumes l: "linked it m l" and k: "k \<notin> fst ` set m"
    and e: "it e = list_begin (push_front k l)"
  shows "linked it ((k, e) # m) (push_front k l)"
proof -
  have fresh: "next_node l \<notin> fst ` set (nodes l)"
    using l by (auto simp: linked_def list_wf_def)
  have it: "it e = next_node l" using e by (simp add: list_begin_def push_front_def)
  have other: "it e' \<noteq> next_node l" if "map_of m k' = Some e'" for k' e'
    using linked_node [OF l that] fresh by (metis dom_map_of_conv_image_fst domI)
  show ?thesis
    using l k it fresh other
    by (auto simp: linked_def list_wf_def push_front_def list_values_def less_Suc_eq split: if_splits)
qed

text \<open>Overwriting an entry that keeps its iterator.\<close>

lemma linked_update:
  assumes l: "linked it m l" and e: "map_of m k = Some e" and it: "it e' = it e"
  shows "linked it (AList.update k e' m) l"
proof -
  from e have "k \<in> fst ` set m" by (metis dom_map_of_conv_image_fst domI)
  with assms show ?thesis
    by (auto simp: linked_def map_fst_update_mem AList.update_conv' insert_absorb dom_update
        simp flip: set_map)
qed

text \<open>Replacing entries by others with the same keys and iterators.\<close>

lemma linked_transfer:
  assumes "linked it m l" and "map fst m' = map fst m"
    and "\<And>k e'. map_of m' k = Some e' \<Longrightarrow> \<exists>e. map_of m k = Some e \<and> it e' = it e"
  shows "linked it m' l"
proof -
  have "fst ` set m' = fst ` set m" using assms(2) by (metis list.set_map)
  with assms show ?thesis unfolding linked_def by metis
qed

text \<open>The last node's key is mapped, and its entry points back to that node.\<close>

lemma linked_back:
  assumes l: "linked it m l" and ne: "nodes l \<noteq> []"
  shows "\<exists>k e. list_back l = Some k \<and> k = last (list_values l) \<and> map_of m k = Some e \<and>
              it e = fst (last (nodes l))"
proof -
  let ?k = "snd (last (nodes l))"
  have k: "?k = last (list_values l)" using ne by (simp add: list_values_def last_map)
  then have "?k \<in> set (list_values l)" using ne by (metis last_in_set list.map_disc_iff list_values_def)
  then have "?k \<in> fst ` set m" using linked_keys [OF l] by simp
  then obtain e where e: "map_of m ?k = Some e"
    by (metis dom_map_of_conv_image_fst domIff option.exhaust)
  have "last (nodes l) \<in> set (nodes l)" using ne by simp
  then have "map_of (nodes l) (fst (last (nodes l))) = Some ?k"
    using linked_ids_distinct [OF l] by (simp add: map_of_eq_Some_iff)
  with linked_node [OF l e] have "it e = fst (last (nodes l))"
    using node_ids_inj linked_values_distinct [OF l] by metis
  with ne e k show ?thesis by (simp add: list_back_def)
qed

lemma remove1_last: "distinct xs \<Longrightarrow> xs \<noteq> [] \<Longrightarrow> remove1 (last xs) xs = butlast xs"
  by (metis append_butlast_last_id distinct_butlast not_distinct_conv_prefix remove1_append
      remove1.simps append_Nil2 distinct_append disjoint_iff list.set_intros(1))

lemma linked_values_distinct': "linked it m l \<Longrightarrow> distinct (list_values l)"
  by (simp add: linked_def)

lemma list_values_empty_iff [simp]: "list_values l = [] \<longleftrightarrow> nodes l = []"
  by (simp add: list_values_def)

section \<open>The entries in list order\<close>

text \<open>
  \<open>view\<close> reads map and list together: the keys in list order (most recently used first), each
  with what \<open>f\<close> keeps of its entry. The operations above act on it as on a plain list.
\<close>

definition view :: "('e \<Rightarrow> 'v) \<Rightarrow> ('k \<times> 'e) list \<Rightarrow> 'k std_list \<Rightarrow> ('k \<times> 'v) list" where
  "view f m l = map (\<lambda>k. (k, f (the (map_of m k)))) (list_values l)"

lemma map_fst_view [simp]: "map fst (view f m l) = list_values l"
  by (simp add: view_def comp_def)

lemma view_eq_Nil_iff [simp]: "view f m l = [] \<longleftrightarrow> nodes l = []"
  by (simp add: view_def)

lemma map_of_view:
  assumes "linked it m l"
  shows "map_of (view f m l) k = map_option f (map_of m k)"
proof (cases "map_of m k")
  case None
  then have "k \<notin> set (list_values l)"
    using linked_keys [OF assms] by (simp add: map_of_eq_None_iff)
  with None show ?thesis by (simp add: view_def map_of_map_restrict)
next
  case (Some e)
  then have "k \<in> set (list_values l)"
    using linked_keys [OF assms] by (simp add: map_of_fst_mem)
  with Some show ?thesis by (simp add: view_def map_of_map_restrict)
qed

lemma view_cong:
  assumes "\<And>k. k \<in> set (list_values l) \<Longrightarrow> map_of m k = map_of m' k"
  shows "view f m l = view f m' l"
  using assms by (simp add: view_def)

lemma view_remove1:
  assumes "distinct (list_values l)" and "list_values l' = remove1 k (list_values l)"
  shows "view f m l' = AList.delete k (view f m l)"
proof -
  have "remove1 k (list_values l) = filter (\<lambda>y. y \<noteq> k) (list_values l)"
    using assms(1) by (rule filter_neq_remove1 [symmetric])
  with assms(2) show ?thesis
    by (simp add: view_def AList.delete_eq filter_map comp_def case_prod_beta eq_commute [of k])
qed

lemma view_splice:
  assumes "linked it m l" and "map_of m k = Some e" and "list_values l' = k # remove1 k (list_values l)"
  shows "view f m l' = (k, f e) # AList.delete k (view f m l)"
proof -
  let ?l = "l\<lparr>nodes := tl (nodes l')\<rparr>"
  from assms(3) have v: "list_values ?l = remove1 k (list_values l)"
    by (metis list.sel(3) list_values_def map_tl std_list.select_convs(1) std_list.surjective
        std_list.update_convs(1))
  have "view f m l' = (k, f e) # view f m ?l"
    using assms(2,3) v by (simp add: view_def)
  also have "view f m ?l = AList.delete k (view f m l)"
    using linked_values_distinct' [OF assms(1)] v by (rule view_remove1)
  finally show ?thesis .
qed

lemma view_erase:
  assumes "linked it m l" and "list_values l' = remove1 k (list_values l)"
  shows "view f (AList.delete k m) l' = AList.delete k (view f m l)"
proof -
  have d: "distinct (list_values l)" using assms(1) by (rule linked_values_distinct')
  then have "k \<notin> set (list_values l')" using assms(2) by simp
  then have "view f (AList.delete k m) l' = view f m l'"
    by (intro view_cong) (auto simp: AList.delete_conv')
  with view_remove1 [OF d assms(2)] show ?thesis by simp
qed

lemma view_push:
  assumes "linked it m l" and "k \<notin> fst ` set m"
  shows "view f ((k, e) # m) (push_front k l) = (k, f e) # view f m l"
proof -
  have "k \<notin> set (list_values l)" using linked_keys [OF assms(1)] assms(2) by simp
  then have "view f ((k, e) # m) l = view f m l" by (intro view_cong) auto
  then show ?thesis by (simp add: view_def list_values_def push_front_def)
qed

lemma view_update_front:
  assumes "linked it m l" and "map_of m k = Some e" and "list_values l' = k # remove1 k (list_values l)"
  shows "view f (AList.update k e' m) l' = (k, f e') # AList.delete k (view f m l)"
proof -
  have "distinct (list_values l)" using assms(1) by (rule linked_values_distinct')
  then have "k \<notin> set (remove1 k (list_values l))" by simp
  then have "view f (AList.update k e' m) l' =
      (k, f e') # map (\<lambda>k. (k, f (the (map_of m k)))) (remove1 k (list_values l))"
    using assms(3) by (auto simp: view_def AList.update_conv')
  also have "\<dots> = (k, f e') # tl (view f m l')"
    using assms(3) by (simp add: view_def)
  also have "view f m l' = (k, f e) # AList.delete k (view f m l)"
    using assms by (rule view_splice)
  finally show ?thesis by simp
qed

lemma mset_view:
  assumes "linked it m l"
  shows "mset (view f m l) = mset (map (\<lambda>(k, e). (k, f e)) m)"
proof -
  have d: "distinct (map fst m)" using assms by (rule linked_distinct)
  have "mset (list_values l) = mset (map fst m)"
    using linked_keys [OF assms] linked_values_distinct' [OF assms] d
    by (metis set_eq_iff_mset_eq_distinct list.set_map)
  then have "mset (view f m l) = mset (map (\<lambda>k. (k, f (the (map_of m k)))) (map fst m))"
    unfolding view_def mset_map by simp
  also have "map (\<lambda>k. (k, f (the (map_of m k)))) (map fst m) = map (\<lambda>(k, e). (k, f e)) m"
    using d by (auto simp: map_of_eq_Some_iff)
  finally show ?thesis .
qed

lemma sum_list_view:
  fixes g :: "'v \<Rightarrow> 'a::comm_monoid_add"
  assumes "linked it m l"
  shows "sum_list (map (\<lambda>(k, v). g v) (view f m l)) = sum_list (map (\<lambda>(k, e). g (f e)) m)"
proof -
  have "mset (map (\<lambda>(k, v). g v) (view f m l)) = mset (map (\<lambda>(k, e). g (f e)) m)"
    using mset_view [OF assms, of f] by (simp add: image_mset.compositionality comp_def case_prod_unfold)
  then show ?thesis by (metis sum_mset_sum_list)
qed

lemma last_view:
  "nodes l \<noteq> [] \<Longrightarrow> fst (last (view f m l)) = last (list_values l)"
  by (simp add: view_def last_map)

lemma view_pop:
  assumes "linked it m l" and "nodes l \<noteq> []"
  shows "AList.delete (last (list_values l)) (view f m l) = butlast (view f m l)"
proof -
  let ?l = "l\<lparr>nodes := butlast (nodes l)\<rparr>"
  have d: "distinct (list_values l)" using assms(1) by (rule linked_values_distinct')
  have "list_values ?l = remove1 (last (list_values l)) (list_values l)"
    using d assms(2) by (simp add: remove1_last) (simp add: list_values_def map_butlast)
  from view_remove1 [OF d this, of f m]
  show ?thesis by (simp add: view_def list_values_def map_butlast)
qed

end
