(* ===== verification/Json.thy ===== *)
theory Json
  imports Prelude
begin

text \<open>
  The JSON values the program builds and reads (\<open>nlohmann::json\<close>). An object is a list of members
  sorted by key, as the library's \<open>std::map\<close> keeps them. Only the operations the program uses are
  here; \<open>parse\<close> and \<open>dump\<close> are parameters of the definitions that call them.
\<close>

datatype json =
    JNull
  | JBool bool
  | JInt int
  | JReal real
  | JStr string
  | JArr "json list"
  | JObj "(string \<times> json) list"

type_synonym json_object = "(string \<times> json) list"
type_synonym json_dump = "json \<Rightarrow> exn + string" \<comment> \<open>\<open>dump()\<close> throws on invalid UTF-8\<close>
type_synonym json_parse = "string \<Rightarrow> exn + json"

text \<open>\<open>o[k] = v\<close>\<close>

fun obj_put :: "string \<Rightarrow> json \<Rightarrow> json_object \<Rightarrow> json_object" where
  "obj_put k v [] = [(k, v)]"
| "obj_put k v ((k', v') # members) =
     (if k = k' then (k, v) # members
      else if k < k' then (k, v) # (k', v') # members
      else (k', v') # obj_put k v members)"

definition obj_of :: "(string \<times> json) list \<Rightarrow> json_object" where
  "obj_of ms = foldl (\<lambda>obj (k, v). obj_put k v obj) [] ms"

text \<open>\<open>o.update(p)\<close>: every member of the argument overwrites.\<close>

definition obj_update :: "json_object \<Rightarrow> json_object \<Rightarrow> json_object" where
  "obj_update obj ms = foldl (\<lambda>obj (k, v). obj_put k v obj) obj ms"

definition json_contains :: "json \<Rightarrow> string \<Rightarrow> bool" where
  "json_contains j k = (case j of JObj obj \<Rightarrow> map_of obj k \<noteq> None | _ \<Rightarrow> False)"

definition json_at :: "json \<Rightarrow> string \<Rightarrow> json option" where
  "json_at j k = (case j of JObj obj \<Rightarrow> map_of obj k | _ \<Rightarrow> None)"

fun type_name :: "json \<Rightarrow> string" where
  "type_name JNull = ''null''"
| "type_name (JBool _) = ''boolean''"
| "type_name (JInt _) = ''number''"
| "type_name (JReal _) = ''number''"
| "type_name (JStr _) = ''string''"
| "type_name (JArr _) = ''array''"
| "type_name (JObj _) = ''object''"

definition type_error_302 :: "string \<Rightarrow> json \<Rightarrow> exn" where
  "type_error_302 expected j =
     Json_exception (''[json.exception.type_error.302] type must be '' @ expected @
       '', but is '' @ type_name j)"

text \<open>\<open>get<std::string>()\<close>, and \<open>value(key, default)\<close> at type bool on an object.\<close>

fun get_string :: "json \<Rightarrow> string outcome" where
  "get_string (JStr s) = Return s"
| "get_string j = Throw (type_error_302 ''string'' j)"

fun get_bool :: "json \<Rightarrow> bool outcome" where
  "get_bool (JBool b) = Return b"
| "get_bool j = Throw (type_error_302 ''boolean'' j)"

definition value_bool :: "json_object \<Rightarrow> string \<Rightarrow> bool \<Rightarrow> bool outcome" where
  "value_bool obj k d = (case map_of obj k of None \<Rightarrow> Return d | Some j \<Rightarrow> get_bool j)"

definition json_value_bool :: "json \<Rightarrow> string \<Rightarrow> bool \<Rightarrow> bool outcome" where
  "json_value_bool j k d = (case j of JObj obj \<Rightarrow> value_bool obj k d
     | _ \<Rightarrow> Throw (Json_exception (''[json.exception.type_error.306] cannot use value() with '' @ type_name j)))"

definition members :: "json \<Rightarrow> json_object" where
  "members j = (case j of JObj obj \<Rightarrow> obj | _ \<Rightarrow> [])"

lemma members_JObj [simp]: "members (JObj obj) = obj"
  by (simp add: members_def)

lemma map_of_obj_put [simp]: "map_of (obj_put k v obj) = (map_of obj)(k \<mapsto> v)"
  by (induction k v obj rule: obj_put.induct) auto

lemma obj_put_keys: "fst ` set (obj_put k v obj) = insert k (fst ` set obj)"
  by (induction k v obj rule: obj_put.induct) auto

lemma obj_put_sorted:
  "sorted (map fst obj) \<Longrightarrow> distinct (map fst obj) \<Longrightarrow>
     sorted (map fst (obj_put k v obj)) \<and> distinct (map fst (obj_put k v obj))"
proof (induction k v obj rule: obj_put.induct)
  case (1 k v)
  then show ?case by simp
next
  case (2 k v k' v' members)
  have keys: "\<forall>x\<in>fst ` set members. k' < x"
    using "2.prems" by (auto simp: less_le)
  show ?case
  proof (cases "k < k' \<or> k = k'")
    case True
    with "2.prems" keys show ?thesis by (auto dest: order.strict_trans)
  next
    case False
    then have k: "k \<noteq> k'" "\<not> k < k'" "k' < k" by auto
    have "\<forall>x\<in>fst ` set (obj_put k v members). k' < x"
      using keys k by (simp add: obj_put_keys)
    with "2.IH" "2.prems" k show ?thesis by (fastforce simp: less_le)
  qed
qed

lemma map_of_obj_update:
  "distinct (map fst ms) \<Longrightarrow> map_of (obj_update obj ms) = map_of obj ++ map_of ms"
proof (induction ms arbitrary: obj)
  case Nil
  then show ?case by (simp add: obj_update_def)
next
  case (Cons m ms)
  obtain k v where m: "m = (k, v)" by (cases m)
  from Cons.prems m have "map_of ms k = None" by (simp add: map_of_eq_None_iff)
  then have "(map_of obj)(k \<mapsto> v) ++ map_of ms = map_of obj ++ (map_of ms)(k \<mapsto> v)"
    by (auto simp: map_add_def fun_eq_iff split: option.splits)
  with Cons m show ?case by (simp add: obj_update_def fun_upd_def del: map_add_upd)
qed

lemma map_of_obj_of: "distinct (map fst ms) \<Longrightarrow> map_of (obj_of ms) = map_of ms"
  using map_of_obj_update [of ms "[]"] by (simp add: obj_update_def obj_of_def)

definition obj_ok :: "json_object \<Rightarrow> bool" where
  \<comment> \<open>members in key order, each key once\<close>
  "obj_ok obj \<longleftrightarrow> sorted (map fst obj) \<and> distinct (map fst obj)"

lemma obj_ok_Nil [simp]: "obj_ok []"
  by (simp add: obj_ok_def)

lemma obj_ok_put [simp]: "obj_ok obj \<Longrightarrow> obj_ok (obj_put k v obj)"
  unfolding obj_ok_def by (rule obj_put_sorted) auto

lemma obj_ok_update [simp]: "obj_ok obj \<Longrightarrow> obj_ok (obj_update obj ms)"
  unfolding obj_update_def by (induction ms arbitrary: obj) auto

lemma obj_ok_of [simp]: "obj_ok (obj_of ms)"
  using obj_ok_update [of "[]" ms] by (simp add: obj_update_def obj_of_def)

lemma map_of_update_ok: "obj_ok ms \<Longrightarrow> map_of (obj_update obj ms) = map_of obj ++ map_of ms"
  unfolding obj_ok_def by (rule map_of_obj_update) simp

end
