(* ===== verification/Cache_Shard.thy ===== *)
theory Cache_Shard
  imports Std_List Json
begin

text \<open>
  One shard of the cache (\<open>class CacheShard\<close> and \<open>struct CacheStats\<close> in \<open>src/cache.h\<close>): an LRU list
  of keys, a map from keys to entries that point into the list, a memory budget and counters.
  Every method runs under the shard's lock, so each is one atomic function of the state.
  \<open>spec_get\<close> and \<open>spec_put\<close> are the abstract cache, a plain list in recency order; the lemmas
  show that the pointer structure implements it without undefined behaviour.
\<close>

section \<open>Data\<close>

definition DEFAULT_SHARD_MEMORY :: u64 where
  "DEFAULT_SHARD_MEMORY = 10 * 1024 * 1024"

datatype CacheDataType = IP_GEOLOCATION | MAC_OUI | NEGATIVE

record CacheStats =
  total_lookups :: u64
  hits :: u64
  misses :: u64
  evictions :: u64
  expired_entries :: u64
  stat_memory_usage_bytes :: u64

definition CacheStats_zero :: CacheStats where
  "CacheStats_zero = \<lparr>total_lookups = 0, hits = 0, misses = 0, evictions = 0,
     expired_entries = 0, stat_memory_usage_bytes = 0\<rparr>"

definition CacheStats_add :: "CacheStats \<Rightarrow> CacheStats \<Rightarrow> CacheStats" where
  "CacheStats_add s t =
     \<lparr>total_lookups = total_lookups s + total_lookups t,
      hits = hits s + hits t,
      misses = misses s + misses t,
      evictions = evictions s + evictions t,
      expired_entries = expired_entries s + expired_entries t,
      stat_memory_usage_bytes = stat_memory_usage_bytes s + stat_memory_usage_bytes t\<rparr>"

definition hit_rate :: "(real \<Rightarrow> real) \<Rightarrow> CacheStats \<Rightarrow> double" where
  "hit_rate fl s =
     (if total_lookups s > 0
      then fl (fl (fl (real (unat (hits s))) / fl (real (unat (total_lookups s)))) * 100)
      else 0)"

definition get_memory_usage_mb :: "(real \<Rightarrow> real) \<Rightarrow> CacheStats \<Rightarrow> double" where
  "get_memory_usage_mb fl s = fl (fl (real (unat (stat_memory_usage_bytes s))) / (1024 * 1024))"

record CacheEntry =
  entry_result :: json
  timestamp :: time_point
  list_it :: nat
  size_bytes :: u64
  data_type :: CacheDataType

record CacheShard =
  cache_map :: "(string \<times> CacheEntry) list"
  cache_list :: "string std_list"
  max_memory_bytes :: u64
  memory_usage_bytes :: u64
  stats :: CacheStats

section \<open>Operations\<close>

definition CacheShard_new :: "u64 \<Rightarrow> CacheShard" where
  "CacheShard_new max_memory =
     \<lparr>cache_map = [], cache_list = list_empty, max_memory_bytes = max_memory,
      memory_usage_bytes = 0, stats = CacheStats_zero\<rparr>"

fun ttl_for_type :: "CacheDataType \<Rightarrow> duration" where
  "ttl_for_type IP_GEOLOCATION = seconds 3600"
| "ttl_for_type MAC_OUI = seconds (7 * 24 * 3600)"
| "ttl_for_type NEGATIVE = seconds 300"

definition CacheShard_get :: "time_point \<Rightarrow> string \<Rightarrow> CacheShard \<Rightarrow> (json option \<times> CacheShard) outcome" where
  "CacheShard_get now key s =
     (let s = s\<lparr>stats := (stats s)\<lparr>total_lookups := total_lookups (stats s) + 1\<rparr>\<rparr> in
      case map_of (cache_map s) key of
        None \<Rightarrow> Return (None, s\<lparr>stats := (stats s)\<lparr>misses := misses (stats s) + 1\<rparr>\<rparr>)
      | Some it \<Rightarrow>
          if now - timestamp it > ttl_for_type (data_type it)
          then (case list_erase (list_it it) (cache_list s) of
                  None \<Rightarrow> Undefined
                | Some l \<Rightarrow> Return (None,
                    s\<lparr>cache_list := l,
                      memory_usage_bytes := memory_usage_bytes s - size_bytes it,
                      cache_map := AList.delete key (cache_map s),
                      stats := (stats s)\<lparr>expired_entries := expired_entries (stats s) + 1,
                                       misses := misses (stats s) + 1\<rparr>\<rparr>))
          else (case splice_front (list_it it) (cache_list s) of
                  None \<Rightarrow> Undefined
                | Some l \<Rightarrow> Return (Some (entry_result it),
                    s\<lparr>cache_list := l, stats := (stats s)\<lparr>hits := hits (stats s) + 1\<rparr>\<rparr>)))"

definition estimate_entry_size :: "json_dump \<Rightarrow> string \<Rightarrow> json \<Rightarrow> u64 outcome" where
  "estimate_entry_size dump key result =
     obind (of_sum (dump result)) (\<lambda>d. Return (of_nat (length key) * 2 + of_nat (length d)))"

lemma list_erase_shorter: "list_erase i l = Some l' \<Longrightarrow> length (nodes l') < length (nodes l)"
  by (auto simp: list_erase_def AList.delete_eq intro!: length_filter_less split: if_splits)

function evict_if_needed :: "u64 \<Rightarrow> CacheShard \<Rightarrow> CacheShard outcome" where
  "evict_if_needed new_entry_size s =
     (if nodes (cache_list s) \<noteq> [] \<and> memory_usage_bytes s + new_entry_size > max_memory_bytes s
      then (case list_back (cache_list s) of
              None \<Rightarrow> Undefined
            | Some k \<Rightarrow>
                (case map_of (cache_map s) k of
                   None \<Rightarrow> Undefined
                 | Some node \<Rightarrow>
                     (case list_erase (list_it node) (cache_list s) of
                        None \<Rightarrow> Undefined
                      | Some l \<Rightarrow> evict_if_needed new_entry_size
                          (s\<lparr>memory_usage_bytes := memory_usage_bytes s - size_bytes node,
                             cache_list := l,
                             cache_map := AList.delete k (cache_map s),
                             stats := (stats s)\<lparr>evictions := evictions (stats s) + 1\<rparr>\<rparr>))))
      else Return s)"
  by pat_completeness auto
termination
  by (relation "measure (\<lambda>(n, s). length (nodes (cache_list s)))") (auto dest: list_erase_shorter)

declare evict_if_needed.simps [simp del]

definition CacheShard_put ::
  "json_dump \<Rightarrow> time_point \<Rightarrow> string \<Rightarrow> json \<Rightarrow> CacheDataType \<Rightarrow> CacheShard \<Rightarrow> CacheShard outcome" where
  "CacheShard_put dump now key result dtype s =
     obind (estimate_entry_size dump key result) (\<lambda>entry_size.
       case map_of (cache_map s) key of
         Some it \<Rightarrow>
           (let it' = it\<lparr>entry_result := result, timestamp := now, size_bytes := entry_size,
                         data_type := dtype\<rparr>;
                s = s\<lparr>memory_usage_bytes := memory_usage_bytes s - size_bytes it + entry_size,
                      cache_map := AList.update key it' (cache_map s)\<rparr>
            in case splice_front (list_it it') (cache_list s) of
                 None \<Rightarrow> Undefined
               | Some l \<Rightarrow> Return (s\<lparr>cache_list := l\<rparr>))
       | None \<Rightarrow>
           obind (evict_if_needed entry_size s) (\<lambda>s.
             let l = push_front key (cache_list s);
                 entry = \<lparr>entry_result = result, timestamp = now, list_it = list_begin l,
                          size_bytes = entry_size, data_type = dtype\<rparr>
             in Return (s\<lparr>cache_list := l, cache_map := (key, entry) # cache_map s,
                         memory_usage_bytes := memory_usage_bytes s + entry_size\<rparr>)))"

definition CacheShard_memory_usage :: "CacheShard \<Rightarrow> u64" where
  "CacheShard_memory_usage s = memory_usage_bytes s"

definition CacheShard_get_local_stats :: "CacheShard \<Rightarrow> CacheStats" where
  "CacheShard_get_local_stats s = stats s"

section \<open>Invariant\<close>

text \<open>
  Map and list agree; the byte count is the sum of the entries' sizes (as 64-bit words, so no
  subtraction ever borrows); lookups are hits plus misses; the counters' own byte field is unused.
\<close>

definition shard_ok :: "CacheShard \<Rightarrow> bool" where
  "shard_ok s \<longleftrightarrow>
     linked list_it (cache_map s) (cache_list s) \<and>
     memory_usage_bytes s = sum_list (map (\<lambda>(k, e). size_bytes e) (cache_map s)) \<and>
     total_lookups (stats s) = hits (stats s) + misses (stats s) \<and>
     stat_memory_usage_bytes (stats s) = 0"

text \<open>What is stored, most recently used first, without the iterators.\<close>

type_synonym stored = "json \<times> time_point \<times> u64 \<times> CacheDataType"

definition entry_view :: "CacheEntry \<Rightarrow> stored" where
  "entry_view e = (entry_result e, timestamp e, size_bytes e, data_type e)"

definition shard_view :: "CacheShard \<Rightarrow> (string \<times> stored) list" where
  "shard_view s = view entry_view (cache_map s) (cache_list s)"

fun stored_size :: "stored \<Rightarrow> u64" where
  "stored_size (r, t, n, d) = n"

fun stored_expired :: "time_point \<Rightarrow> stored \<Rightarrow> bool" where
  "stored_expired now (r, t, n, d) \<longleftrightarrow> now - t > ttl_for_type d"

definition total_size :: "(string \<times> stored) list \<Rightarrow> u64" where
  "total_size xs = sum_list (map (\<lambda>(k, v). stored_size v) xs)"

section \<open>The abstract cache\<close>

definition spec_get :: "time_point \<Rightarrow> string \<Rightarrow> (string \<times> stored) list \<Rightarrow>
    json option \<times> (string \<times> stored) list" where
  "spec_get now key xs =
     (case map_of xs key of
        None \<Rightarrow> (None, xs)
      | Some v \<Rightarrow> if stored_expired now v then (None, AList.delete key xs)
                  else (Some (fst v), (key, v) # AList.delete key xs))"

function spec_evict :: "u64 \<Rightarrow> u64 \<Rightarrow> (string \<times> stored) list \<Rightarrow> (string \<times> stored) list" where
  "spec_evict limit n xs =
     (if xs \<noteq> [] \<and> total_size xs + n > limit then spec_evict limit n (butlast xs) else xs)"
  by pat_completeness auto
termination
  by (relation "measure (\<lambda>(limit, n, xs). length xs)") auto

declare spec_evict.simps [simp del]

definition spec_put :: "u64 \<Rightarrow> time_point \<Rightarrow> string \<Rightarrow> json \<Rightarrow> u64 \<Rightarrow> CacheDataType \<Rightarrow>
    (string \<times> stored) list \<Rightarrow> (string \<times> stored) list" where
  "spec_put limit now key r n d xs =
     (if map_of xs key = None then (key, (r, now, n, d)) # spec_evict limit n xs
      else (key, (r, now, n, d)) # AList.delete key xs)"

section \<open>Refinement\<close>

lemma stored_size_view [simp]: "stored_size (entry_view e) = size_bytes e"
  by (simp add: entry_view_def)

lemma stored_expired_view [simp]:
  "stored_expired now (entry_view e) \<longleftrightarrow> now - timestamp e > ttl_for_type (data_type e)"
  by (simp add: entry_view_def)

lemma fst_entry_view [simp]: "fst (entry_view e) = entry_result e"
  by (simp add: entry_view_def)

lemma shard_ok_linked: "shard_ok s \<Longrightarrow> linked list_it (cache_map s) (cache_list s)"
  by (simp add: shard_ok_def)

lemma shard_ok_distinct: "shard_ok s \<Longrightarrow> distinct (map fst (cache_map s))"
  by (auto simp: shard_ok_def intro: linked_distinct)

lemma shard_ok_new [inv_intros]: "shard_ok (CacheShard_new n)"
  by (simp add: shard_ok_def CacheShard_new_def CacheStats_zero_def linked_empty)

lemma shard_view_new [simp]: "shard_view (CacheShard_new n) = []"
  by (simp add: shard_view_def CacheShard_new_def list_empty_def)

lemma max_memory_new [simp]: "max_memory_bytes (CacheShard_new n) = n"
  by (simp add: CacheShard_new_def)

lemma shard_memory:
  assumes "shard_ok s"
  shows "memory_usage_bytes s = total_size (shard_view s)"
  using sum_list_view [OF shard_ok_linked [OF assms], of stored_size entry_view] assms
  by (simp add: shard_ok_def shard_view_def total_size_def)

lemma shard_view_lookup:
  "shard_ok s \<Longrightarrow> map_of (shard_view s) k = map_option entry_view (map_of (cache_map s) k)"
  unfolding shard_view_def by (rule map_of_view [OF shard_ok_linked])

lemma CacheShard_get_refines:
  assumes ok: "shard_ok s"
  shows "\<exists>s'. CacheShard_get now key s = Return (fst (spec_get now key (shard_view s)), s') \<and>
           shard_ok s' \<and> shard_view s' = snd (spec_get now key (shard_view s)) \<and>
           max_memory_bytes s' = max_memory_bytes s"
proof (cases "map_of (cache_map s) key")
  case None
  with ok shard_view_lookup [OF ok, of key] show ?thesis
    by (simp add: CacheShard_get_def spec_get_def shard_ok_def shard_view_def)
next
  case (Some e)
  note l = shard_ok_linked [OF ok]
  have look: "map_of (shard_view s) key = Some (entry_view e)"
    using Some shard_view_lookup [OF ok] by simp
  show ?thesis
  proof (cases "now - timestamp e > ttl_for_type (data_type e)")
    case True
    from linked_erase [OF l Some] obtain l' where l': "list_erase (list_it e) (cache_list s) = Some l'"
      "linked list_it (AList.delete key (cache_map s)) l'"
      "list_values l' = remove1 key (list_values (cache_list s))" by blast
    with True Some look ok view_erase [OF l l'(3), of entry_view]
      sum_list_map_delete [OF shard_ok_distinct [OF ok] Some, of "\<lambda>(k, e). size_bytes e"]
    show ?thesis
      by (simp add: CacheShard_get_def spec_get_def shard_ok_def shard_view_def)
  next
    case False
    from linked_splice [OF l Some] obtain l' where l': "splice_front (list_it e) (cache_list s) = Some l'"
      "linked list_it (cache_map s) l'"
      "list_values l' = key # remove1 key (list_values (cache_list s))" by blast
    with False Some look ok view_splice [OF l Some l'(3), of entry_view] show ?thesis
      by (simp add: CacheShard_get_def spec_get_def shard_ok_def shard_view_def)
  qed
qed

text \<open>Eviction pops least recently used entries until the new entry fits or nothing is left.\<close>

lemma evict_if_needed_refines:
  assumes "shard_ok s"
  shows "\<exists>s'. evict_if_needed n s = Return s' \<and> shard_ok s' \<and>
           shard_view s' = spec_evict (max_memory_bytes s) n (shard_view s) \<and>
           max_memory_bytes s' = max_memory_bytes s \<and>
           fst ` set (cache_map s') \<subseteq> fst ` set (cache_map s)"
  using assms
proof (induction n s rule: evict_if_needed.induct)
  case (1 n s)
  note ok = "1.prems" and l = shard_ok_linked [OF "1.prems"]
  show ?case
  proof (cases "nodes (cache_list s) \<noteq> [] \<and> memory_usage_bytes s + n > max_memory_bytes s")
    case False
    then have "spec_evict (max_memory_bytes s) n (shard_view s) = shard_view s"
      using shard_memory [OF ok] by (subst spec_evict.simps) (auto simp: shard_view_def)
    moreover have "evict_if_needed n s = Return s"
      using False by (subst evict_if_needed.simps) (simp only: if_False)
    ultimately show ?thesis using ok by simp
  next
    case True
    then obtain k e where k: "list_back (cache_list s) = Some k" "k = last (list_values (cache_list s))"
      and e: "map_of (cache_map s) k = Some e"
      using linked_back [OF l] by blast
    from linked_erase [OF l e] obtain l' where l': "list_erase (list_it e) (cache_list s) = Some l'"
      "linked list_it (AList.delete k (cache_map s)) l'"
      "list_values l' = remove1 k (list_values (cache_list s))" by blast
    define t where "t = s\<lparr>memory_usage_bytes := memory_usage_bytes s - size_bytes e,
        cache_list := l', cache_map := AList.delete k (cache_map s),
        stats := (stats s)\<lparr>evictions := evictions (stats s) + 1\<rparr>\<rparr>"
    have step: "evict_if_needed n s = evict_if_needed n t"
      using True k(1) e l'(1) unfolding t_def by (subst evict_if_needed.simps) simp
    have ok': "shard_ok t"
      using ok l'(2) sum_list_map_delete [OF shard_ok_distinct [OF ok] e, of "\<lambda>(k, e). size_bytes e"]
      by (simp add: shard_ok_def t_def)
    have v: "shard_view t = butlast (shard_view s)"
      using view_erase [OF l l'(3), of entry_view] view_pop [OF l, of entry_view] True k(2)
      by (simp add: shard_view_def t_def)
    have "spec_evict (max_memory_bytes s) n (shard_view s) =
          spec_evict (max_memory_bytes s) n (butlast (shard_view s))"
      using True shard_memory [OF ok] by (subst spec_evict.simps) (simp add: shard_view_def)
    moreover have "\<exists>s'. evict_if_needed n t = Return s' \<and> shard_ok s' \<and>
           shard_view s' = spec_evict (max_memory_bytes t) n (shard_view t) \<and>
           max_memory_bytes s' = max_memory_bytes t \<and>
           fst ` set (cache_map s') \<subseteq> fst ` set (cache_map t)"
      using "1.IH" [OF True k(1) e l'(1)] ok' unfolding t_def by blast
    ultimately show ?thesis
      unfolding step v [symmetric] by (auto simp: t_def)
  qed
qed

lemma spec_evict_fits:
  "total_size (spec_evict limit n xs) + n \<le> limit \<or> spec_evict limit n xs = []"
proof (induction limit n xs rule: spec_evict.induct)
  case (1 limit n xs)
  then show ?case by (subst (1 2) spec_evict.simps) (auto simp: not_less)
qed

lemma spec_evict_prefix: "\<exists>ys. xs = spec_evict limit n xs @ ys"
proof (induction limit n xs rule: spec_evict.induct)
  case (1 limit n xs)
  show ?case
  proof (cases "xs \<noteq> [] \<and> total_size xs + n > limit")
    case True
    with "1.IH" obtain ys where "butlast xs = spec_evict limit n (butlast xs) @ ys" by blast
    then have "xs = spec_evict limit n (butlast xs) @ ys @ [last xs]"
      using True by (metis append.assoc append_butlast_last_id)
    then show ?thesis using True by (subst spec_evict.simps) auto
  next
    case False
    then show ?thesis by (subst spec_evict.simps) auto
  qed
qed

lemma CacheShard_put_refines:
  fixes key :: string
  assumes ok: "shard_ok s" and d: "dump r = Inr d"
  defines "n \<equiv> of_nat (length key) * 2 + of_nat (length d)"
  shows "\<exists>s'. CacheShard_put dump now key r dt s = Return s' \<and> shard_ok s' \<and>
           shard_view s' = spec_put (max_memory_bytes s) now key r n dt (shard_view s) \<and>
           max_memory_bytes s' = max_memory_bytes s"
proof -
  have es: "estimate_entry_size dump key r = Return n"
    using d by (simp add: estimate_entry_size_def n_def)
  show ?thesis
  proof (cases "map_of (cache_map s) key")
    case (Some e)
    note l = shard_ok_linked [OF ok]
    let ?e = "e\<lparr>entry_result := r, timestamp := now, size_bytes := n, data_type := dt\<rparr>"
    from linked_splice [OF l Some] obtain l' where l': "splice_front (list_it e) (cache_list s) = Some l'"
      "linked list_it (cache_map s) l'"
      "list_values l' = key # remove1 key (list_values (cache_list s))" by blast
    have lk: "linked list_it (AList.update key ?e (cache_map s)) l'"
      using linked_update [OF l'(2) Some, of ?e] by simp
    have look: "map_of (shard_view s) key = Some (entry_view e)"
      using Some shard_view_lookup [OF ok] by simp
    show ?thesis
      using Some es l'(1) lk ok look view_update_front [OF l Some l'(3), of entry_view ?e]
        sum_list_map_update [OF shard_ok_distinct [OF ok] Some, of "\<lambda>(k, e). size_bytes e" ?e]
      by (simp add: CacheShard_put_def shard_ok_def shard_view_def spec_put_def entry_view_def)
  next
    case None
    have look: "map_of (shard_view s) key = None"
      using None shard_view_lookup [OF ok] by simp
    obtain t where t: "evict_if_needed n s = Return t" "shard_ok t"
      "shard_view t = spec_evict (max_memory_bytes s) n (shard_view s)"
      "max_memory_bytes t = max_memory_bytes s"
      "fst ` set (cache_map t) \<subseteq> fst ` set (cache_map s)"
      using evict_if_needed_refines [OF ok, of n] by blast
    have fresh: "key \<notin> fst ` set (cache_map t)"
      using t(5) None by (auto simp: map_of_eq_None_iff)
    let ?l = "push_front key (cache_list t)"
    let ?e = "\<lparr>entry_result = r, timestamp = now, list_it = list_begin ?l, size_bytes = n, data_type = dt\<rparr>"
    have lk: "linked list_it ((key, ?e) # cache_map t) ?l"
      using linked_push [OF shard_ok_linked [OF t(2)] fresh, of ?e] by simp
    show ?thesis
      using None es t lk look view_push [OF shard_ok_linked [OF t(2)] fresh, of entry_view ?e]
      by (simp add: CacheShard_put_def shard_ok_def shard_view_def spec_put_def entry_view_def Let_def add.commute)
  qed
qed

section \<open>Runs\<close>

text \<open>
  Any sequence of calls on one shard, with the answers of the \<open>get\<close> calls. A \<open>put\<close> whose \<open>dump\<close>
  throws leaves the shard as it was: the size estimate comes before every change.
\<close>

datatype shard_call = Get time_point string | Put time_point string json CacheDataType

fun shard_run :: "json_dump \<Rightarrow> shard_call list \<Rightarrow> CacheShard \<Rightarrow> (json option list \<times> CacheShard) outcome" where
  "shard_run dump [] s = Return ([], s)"
| "shard_run dump (Get now k # calls) s =
     (case CacheShard_get now k s of
        Return (r, s') \<Rightarrow> obind (shard_run dump calls s') (\<lambda>(rs, s''). Return (r # rs, s''))
      | Throw e \<Rightarrow> Throw e
      | Undefined \<Rightarrow> Undefined)"
| "shard_run dump (Put now k r d # calls) s =
     (case CacheShard_put dump now k r d s of
        Return s' \<Rightarrow> shard_run dump calls s'
      | Throw e \<Rightarrow> shard_run dump calls s
      | Undefined \<Rightarrow> Undefined)"

fun spec_run :: "json_dump \<Rightarrow> u64 \<Rightarrow> shard_call list \<Rightarrow> (string \<times> stored) list \<Rightarrow>
    json option list \<times> (string \<times> stored) list" where
  "spec_run dump limit [] xs = ([], xs)"
| "spec_run dump limit (Get now k # calls) xs =
     (let (r, xs') = spec_get now k xs; (rs, xs'') = spec_run dump limit calls xs' in (r # rs, xs''))"
| "spec_run dump limit (Put now k r d # calls) xs =
     (case dump r of
        Inr text \<Rightarrow> spec_run dump limit calls
          (spec_put limit now k r (of_nat (length k) * 2 + of_nat (length text)) d xs)
      | Inl e \<Rightarrow> spec_run dump limit calls xs)"

lemma shard_run_spec:
  assumes "shard_ok s"
  shows "\<exists>s'. shard_run dump calls s =
       Return (fst (spec_run dump (max_memory_bytes s) calls (shard_view s)), s') \<and> shard_ok s' \<and>
     shard_view s' = snd (spec_run dump (max_memory_bytes s) calls (shard_view s))"
  using assms
proof (induction dump calls s rule: shard_run.induct)
  case (1 dump s)
  then show ?case by simp
next
  case (2 dump now k calls s)
  obtain s1 where s1: "CacheShard_get now k s = Return (fst (spec_get now k (shard_view s)), s1)"
    "shard_ok s1" "shard_view s1 = snd (spec_get now k (shard_view s))"
    "max_memory_bytes s1 = max_memory_bytes s"
    using CacheShard_get_refines [OF "2.prems"] by blast
  from "2.IH" [OF s1(1) refl s1(2)] s1 show ?case by (auto simp: case_prod_beta Let_def)
next
  case (3 dump now k r d calls s)
  show ?case
  proof (cases "dump r")
    case (Inl e)
    then have "CacheShard_put dump now k r d s = Throw e"
      by (simp add: CacheShard_put_def estimate_entry_size_def)
    with "3.IH"(2) [OF this "3.prems"] Inl show ?thesis by simp
  next
    case (Inr str)
    from CacheShard_put_refines [where dump = dump and d = str, OF "3.prems" Inr] obtain s1
      where s1: "CacheShard_put dump now k r d s = Return s1" "shard_ok s1"
        "shard_view s1 = spec_put (max_memory_bytes s) now k r
           (of_nat (length k) * 2 + of_nat (length str)) d (shard_view s)"
        "max_memory_bytes s1 = max_memory_bytes s" by blast
    from "3.IH"(1) [OF s1(1,2)] s1 Inr show ?thesis by simp
  qed
qed

section \<open>Properties\<close>

lemmas shard_eval = CacheShard_new_def CacheShard_put_def CacheShard_get_def estimate_entry_size_def
  evict_if_needed.simps push_front_def list_begin_def list_empty_def list_back_def list_erase_def
  splice_front_def CacheStats_zero_def

text \<open>C13: For every sequence of get and put calls on a new shard, the pointer structure (hash map plus
  linked list with stored iterators) behaves as the plain recency-ordered list: same answers, same
  contents, no undefined behaviour, and the invariant (byte count equal to the sum of entry sizes,
  lookups equal to hits plus misses) holds at the end.\<close>

theorem shard_run_refines_lru:
  "\<exists>s. shard_run dump calls (CacheShard_new limit) = Return (fst (spec_run dump limit calls []), s) \<and>
     shard_ok s \<and> shard_view s = snd (spec_run dump limit calls [])"
  using shard_run_spec [OF shard_ok_new, of dump calls limit]
  by (simp add: max_memory_new)

text \<open>C24: Inserting a key that is not cached completes and keeps the budget: afterwards either the byte count is
  within \<open>max_memory_bytes\<close>, or the new entry is the only one left; the survivors are the most
  recently used entries, in their order.\<close>

theorem put_new_within_budget:
  assumes "shard_ok s" and "map_of (cache_map s) key = None"
    and "dump r = Inr d"
  shows "\<exists>s'. CacheShard_put dump now key r dt s = Return s' \<and>
     (memory_usage_bytes s' \<le> max_memory_bytes s \<or> length (cache_map s') = 1) \<and>
     (\<exists>v evicted. shard_view s = tl (shard_view s') @ evicted \<and> hd (shard_view s') = (key, v))"
proof -
  let ?n = "of_nat (length key) * 2 + of_nat (length d)"
  from CacheShard_put_refines [where dump = dump and d = d, OF assms(1,3), of now key dt] obtain s'
    where put: "CacheShard_put dump now key r dt s = Return s'" and s': "shard_ok s'"
    "shard_view s' = spec_put (max_memory_bytes s) now key r ?n dt (shard_view s)" by blast
  have v: "shard_view s' = (key, r, now, ?n, dt) # spec_evict (max_memory_bytes s) ?n (shard_view s)"
    using s'(2) assms(2) shard_view_lookup [OF assms(1), of key] by (simp add: spec_put_def)
  have len: "length (cache_map s') = length (shard_view s')"
    using linked_length [OF shard_ok_linked [OF s'(1)]] by (simp add: shard_view_def view_def)
  have mem: "memory_usage_bytes s' = total_size (spec_evict (max_memory_bytes s) ?n (shard_view s)) + ?n"
    unfolding shard_memory [OF s'(1)] v by (simp add: total_size_def)
  show ?thesis
    using spec_evict_fits [of "max_memory_bytes s" ?n "shard_view s"]
      spec_evict_prefix [of "shard_view s" "max_memory_bytes s" ?n] mem len v put by auto
qed

theorem put_new_within_budget_witness:
  "\<exists>s s'. CacheShard_put (\<lambda>j. Inr ''123'') 0 ''a'' JNull NEGATIVE (CacheShard_new 7) = Return s \<and>
     CacheShard_put (\<lambda>j. Inr ''123'') 1 ''b'' JNull MAC_OUI s = Return s' \<and>
     (memory_usage_bytes s' \<le> max_memory_bytes s \<or> length (cache_map s') = 1)"
proof -
  let ?dump = "\<lambda>j::json. Inr ''123'' :: exn + string"
  obtain s where s: "CacheShard_put ?dump 0 ''a'' JNull NEGATIVE (CacheShard_new 7) = Return s" "shard_ok s"
    using CacheShard_put_refines [OF shard_ok_new, of ?dump JNull "''123''"] by blast
  have n: "map_of (cache_map s) ''b'' = None" using s(1) by (auto simp: shard_eval)
  from put_new_within_budget [where dump = ?dump, OF s(2) n refl, of 1 JNull MAC_OUI] s show ?thesis by blast
qed

text \<open>Overwriting a cached key is not bounded by the budget: there are calls after which a shard
  holds two entries and more bytes than \<open>max_memory_bytes\<close>, although evicting the other entry was
  possible.\<close>

lemma overwrite_exceeds_budget:
  "\<exists>dump calls rs s. shard_run dump calls (CacheShard_new 10) = Return (rs, s) \<and>
     length (cache_map s) = 2 \<and> memory_usage_bytes s > max_memory_bytes s"
proof -
  let ?dump = "\<lambda>j. case j of JStr t \<Rightarrow> Inr t | _ \<Rightarrow> Inr []"
  let ?calls = "[Put 0 ''a'' (JStr ''x'') NEGATIVE, Put 1 ''b'' (JStr ''x'') NEGATIVE,
     Put 2 ''a'' (JStr ''0123456789'') NEGATIVE]"
  have "\<exists>rs s. shard_run ?dump ?calls (CacheShard_new 10) = Return (rs, s) \<and>
     length (cache_map s) = 2 \<and> memory_usage_bytes s > max_memory_bytes s"
    by (simp add: shard_eval)
  then show ?thesis by blast
qed

text \<open>The reported hit rate is a percentage, under IEEE rounding, whenever no more hits than lookups
  were counted.\<close>

lemma hit_rate_is_percentage:
  assumes "ieee_rounding fl" and "hits s \<le> total_lookups s"
  shows "0 \<le> hit_rate fl s \<and> hit_rate fl s \<le> 100"
proof (cases "total_lookups s > 0")
  case False
  then show ?thesis by (simp add: hit_rate_def)
next
  case True
  let ?h = "fl (real (unat (hits s)))" and ?t = "fl (real (unat (total_lookups s)))"
  have ht: "?h \<le> ?t" by (rule ieee_mono [OF assms(1)]) (use assms(2) in \<open>simp only: of_nat_le_iff word_le_nat_alt\<close>)
  have h0: "0 \<le> ?h" by (rule ieee_nonneg [OF assms(1)]) (rule of_nat_0_le_iff)
  have "1 \<le> unat (total_lookups s)" using True by (simp add: word_less_nat_alt)
  then have "real 1 \<le> real (unat (total_lookups s))" by (simp only: of_nat_le_iff)
  then have "1 \<le> real (unat (total_lookups s))" by (simp only: of_nat_1)
  then have "fl 1 \<le> ?t" by (rule ieee_mono [OF assms(1)])
  then have t1: "1 \<le> ?t" using ieee_of_nat [OF assms(1), of 1] by simp
  have q: "0 \<le> ?h / ?t" "?h / ?t \<le> 1" using ht h0 t1 by auto
  have "fl (?h / ?t) \<le> fl 1" using assms(1) q(2) by (rule ieee_mono)
  then have q': "0 \<le> fl (?h / ?t)" "fl (?h / ?t) \<le> 1"
    using ieee_nonneg [OF assms(1) q(1)] ieee_of_nat [OF assms(1), of 1] by auto
  have "fl (fl (?h / ?t) * 100) \<le> fl 100" by (rule ieee_mono [OF assms(1)]) (use q'(2) in simp)
  moreover have "0 \<le> fl (fl (?h / ?t) * 100)" by (rule ieee_nonneg [OF assms(1)]) (use q'(1) in simp)
  ultimately show ?thesis using ieee_of_nat [OF assms(1), of 100] True by (simp add: hit_rate_def)
qed

end
