(* ===== verification/IP_Cache.thy ===== *)
theory IP_Cache
  imports Cache_Shard
begin

text \<open>
  The sharded cache (\<open>class IPCache\<close> in \<open>src/cache.h\<close>). \<open>std::hash<std::string>\<close> is the parameter
  \<open>hash\<close>. The locale \<open>lookup_cache\<close> is the interface the lookup services rely on; it is
  interpreted here on the model's own operations.
\<close>

definition DEFAULT_MAX_MEMORY :: u64 where
  "DEFAULT_MAX_MEMORY = 100 * 1024 * 1024"

record IPCache =
  shards :: "CacheShard list"
  shard_count :: u64

definition IPCache_new :: "u64 \<Rightarrow> u64 \<Rightarrow> IPCache outcome" where
  "IPCache_new max_memory cnt =
     (if cnt = 0 then Undefined
      else let shard_memory = (max_memory + cnt - 1) div cnt in
        Return \<lparr>shards = replicate (unat cnt) (CacheShard_new shard_memory), shard_count = cnt\<rparr>)"

definition get_shard_index :: "(string \<Rightarrow> u64) \<Rightarrow> string \<Rightarrow> IPCache \<Rightarrow> nat" where
  "get_shard_index hash key c = unat (hash key mod shard_count c)"

definition IPCache_get :: "(string \<Rightarrow> u64) \<Rightarrow> time_point \<Rightarrow> string \<Rightarrow> IPCache \<Rightarrow>
    (json option \<times> IPCache) outcome" where
  "IPCache_get hash now key c =
     (let i = get_shard_index hash key c in
      if i < length (shards c)
      then obind (CacheShard_get now key (shards c ! i)) (\<lambda>(r, s).
             Return (r, c\<lparr>shards := (shards c)[i := s]\<rparr>))
      else Undefined)"

definition IPCache_put :: "json_dump \<Rightarrow> (string \<Rightarrow> u64) \<Rightarrow> time_point \<Rightarrow> string \<Rightarrow> json \<Rightarrow>
    CacheDataType \<Rightarrow> IPCache \<Rightarrow> IPCache outcome" where
  "IPCache_put dump hash now key result dtype c =
     (let i = get_shard_index hash key c in
      if i < length (shards c)
      then obind (CacheShard_put dump now key result dtype (shards c ! i)) (\<lambda>s.
             Return (c\<lparr>shards := (shards c)[i := s]\<rparr>))
      else Undefined)"

definition IPCache_get_stats :: "IPCache \<Rightarrow> CacheStats" where
  "IPCache_get_stats c =
     foldl (\<lambda>combined s.
        (let combined = CacheStats_add combined (CacheShard_get_local_stats s) in
         combined\<lparr>stat_memory_usage_bytes :=
           stat_memory_usage_bytes combined + CacheShard_memory_usage s\<rparr>))
       CacheStats_zero (shards c)"

section \<open>Invariant and contents\<close>

definition cache_ok :: "IPCache \<Rightarrow> bool" where
  "cache_ok c \<longleftrightarrow> shard_count c \<noteq> 0 \<and> length (shards c) = unat (shard_count c) \<and>
     (\<forall>s\<in>set (shards c). shard_ok s)"

definition cache_stored :: "(string \<Rightarrow> u64) \<Rightarrow> IPCache \<Rightarrow> string \<Rightarrow> stored option" where
  "cache_stored hash c key = map_of (shard_view (shards c ! get_shard_index hash key c)) key"

definition cache_content :: "(string \<Rightarrow> u64) \<Rightarrow> IPCache \<Rightarrow> string \<Rightarrow> json option" where
  "cache_content hash c key = map_option fst (cache_stored hash c key)"

lemma shard_index_bound: "cache_ok c \<Longrightarrow> get_shard_index hash key c < length (shards c)"
  by (simp add: cache_ok_def get_shard_index_def unat_mod word_neq_0_conv unat_gt_0)

lemma shard_index_cong [simp]: "get_shard_index hash key (c\<lparr>shards := ss\<rparr>) = get_shard_index hash key c"
  by (simp add: get_shard_index_def)

lemma cache_ok_nth: "cache_ok c \<Longrightarrow> shard_ok (shards c ! get_shard_index hash key c)"
  using shard_index_bound [of c hash key] by (auto simp: cache_ok_def)

lemma cache_ok_update:
  "cache_ok c \<Longrightarrow> shard_ok s \<Longrightarrow> cache_ok (c\<lparr>shards := (shards c)[i := s]\<rparr>)"
  using set_update_subset_insert [of "shards c" i s] by (auto simp: cache_ok_def)

lemma IPCache_new_ok [inv_intros]:
  "cnt \<noteq> 0 \<Longrightarrow> \<exists>c. IPCache_new max_memory cnt = Return c \<and> cache_ok c \<and> cache_content hash c = Map.empty"
proof -
  assume "cnt \<noteq> 0"
  moreover have "unat (hash k mod cnt) < unat cnt" for k
    using \<open>cnt \<noteq> 0\<close> by (simp add: unat_mod unat_gt_0)
  ultimately show ?thesis
    by (simp add: IPCache_new_def Let_def cache_ok_def shard_ok_new cache_content_def
        cache_stored_def get_shard_index_def shard_view_new fun_eq_iff unat_gt_0)
qed

lemma map_of_AList_delete_le: "map_of (AList.delete k xs) \<subseteq>\<^sub>m map_of xs"
  by (auto simp: map_le_def AList.delete_conv')

lemma map_of_prefix_le: "distinct (map fst (xs @ ys)) \<Longrightarrow> map_of xs \<subseteq>\<^sub>m map_of (xs @ ys)"
  by (auto simp: map_le_def map_add_def map_of_eq_None_iff dom_map_of_conv_image_fst
      split: option.splits dest: map_of_fst_mem)

lemma spec_get_le: "map_of (snd (spec_get now key xs)) \<subseteq>\<^sub>m map_of xs"
  by (auto simp: spec_get_def map_le_def AList.delete_conv' split: option.splits if_splits)

lemma spec_put_same: "map_of (spec_put limit now key r n d xs) key = Some (r, now, n, d)"
  by (simp add: spec_put_def)

lemma spec_put_le:
  assumes "distinct (map fst xs)"
  shows "map_of (spec_put limit now key r n d xs) \<subseteq>\<^sub>m (map_of xs)(key \<mapsto> (r, now, n, d))"
proof (cases "map_of xs key")
  case None
  obtain ys where "xs = spec_evict limit n xs @ ys" using spec_evict_prefix by blast
  then have "map_of (spec_evict limit n xs) \<subseteq>\<^sub>m map_of xs"
    using map_of_prefix_le assms by metis
  with None show ?thesis by (auto simp: spec_put_def map_le_def)
next
  case (Some v)
  then show ?thesis by (auto simp: spec_put_def map_le_def AList.delete_conv')
qed

lemma shard_view_distinct: "shard_ok s \<Longrightarrow> distinct (map fst (shard_view s))"
  by (simp add: shard_view_def linked_values_distinct' [OF shard_ok_linked])

text \<open>The effect of \<open>get\<close> and \<open>put\<close> on one shard, seen through the contents of the whole cache.\<close>

lemma cache_stored_update:
  assumes "cache_ok c" and "i = get_shard_index hash key c"
  shows "cache_stored hash (c\<lparr>shards := (shards c)[i := s]\<rparr>) k =
    (if get_shard_index hash k c = i then map_of (shard_view s) k else cache_stored hash c k)"
  using shard_index_bound [OF assms(1), of hash key] assms(2) by (auto simp: cache_stored_def)

lemma IPCache_get_spec:
  assumes ok: "cache_ok c"
  shows "\<exists>c'. IPCache_get hash now key c =
             Return (case cache_stored hash c key of None \<Rightarrow> None
                     | Some v \<Rightarrow> if stored_expired now v then None else Some (fst v), c') \<and>
           cache_ok c' \<and> cache_stored hash c' \<subseteq>\<^sub>m cache_stored hash c \<and>
           shard_count c' = shard_count c"
proof -
  let ?i = "get_shard_index hash key c"
  have i: "?i < length (shards c)" using ok by (rule shard_index_bound)
  obtain s where s: "CacheShard_get now key (shards c ! ?i) =
      Return (fst (spec_get now key (shard_view (shards c ! ?i))), s)" "shard_ok s"
    "shard_view s = snd (spec_get now key (shard_view (shards c ! ?i)))"
    using CacheShard_get_refines [OF cache_ok_nth [OF ok]] by blast
  let ?c = "c\<lparr>shards := (shards c)[?i := s]\<rparr>"
  have "cache_stored hash ?c \<subseteq>\<^sub>m cache_stored hash c"
    using spec_get_le [of now key "shard_view (shards c ! ?i)"] s(3)
    unfolding map_le_Some_iff cache_stored_update [OF ok refl]
    by (metis cache_stored_def)
  moreover have "fst (spec_get now key (shard_view (shards c ! ?i))) =
      (case cache_stored hash c key of None \<Rightarrow> None
       | Some v \<Rightarrow> if stored_expired now v then None else Some (fst v))"
    by (auto simp: spec_get_def cache_stored_def split: option.splits)
  ultimately show ?thesis
    using i s(1) cache_ok_update [OF ok s(2)] by (auto simp: IPCache_get_def Let_def)
qed

lemma IPCache_put_spec:
  fixes key :: string
  assumes ok: "cache_ok c" and d: "dump r = Inr d"
  defines "n \<equiv> of_nat (length key) * 2 + of_nat (length d)"
  shows "\<exists>c'. IPCache_put dump hash now key r dt c = Return c' \<and> cache_ok c' \<and>
           cache_stored hash c' key = Some (r, now, n, dt) \<and>
           cache_stored hash c' \<subseteq>\<^sub>m (cache_stored hash c)(key \<mapsto> (r, now, n, dt)) \<and>
           shard_count c' = shard_count c"
proof -
  let ?i = "get_shard_index hash key c"
  have i: "?i < length (shards c)" using ok by (rule shard_index_bound)
  note oki = cache_ok_nth [OF ok, of hash key]
  obtain s where s: "CacheShard_put dump now key r dt (shards c ! ?i) = Return s" "shard_ok s"
    "shard_view s = spec_put (max_memory_bytes (shards c ! ?i)) now key r n dt (shard_view (shards c ! ?i))"
    using CacheShard_put_refines [where dump = dump and r = r and d = d, OF oki d, of now key dt] n_def by blast
  let ?c = "c\<lparr>shards := (shards c)[?i := s]\<rparr>"
  have "cache_stored hash ?c \<subseteq>\<^sub>m (cache_stored hash c)(key \<mapsto> (r, now, n, dt))"
    using spec_put_le [OF shard_view_distinct [OF oki], of "max_memory_bytes (shards c ! ?i)" now key r n dt] s(3)
    unfolding map_le_Some_iff cache_stored_update [OF ok refl]
    by (metis cache_stored_def fun_upd_apply)
  moreover have "cache_stored hash ?c key = Some (r, now, n, dt)"
    using s(3) by (simp add: cache_stored_update [OF ok refl] spec_put_same)
  ultimately show ?thesis
    using i s(1) cache_ok_update [OF ok s(2)] by (auto simp: IPCache_put_def Let_def)
qed

lemma IPCache_put_throw:
  assumes "cache_ok c" and "dump r = Inl e"
  shows "IPCache_put dump hash now key r dt c = Throw e"
  using assms shard_index_bound [OF assms(1)]
  by (simp add: IPCache_put_def CacheShard_put_def estimate_entry_size_def Let_def)

section \<open>The cache as the services see it\<close>

definition agrees :: "('k \<Rightarrow> 'v option) \<Rightarrow> ('k \<Rightarrow> 'v) \<Rightarrow> bool" where
  "agrees m f \<longleftrightarrow> (\<forall>k v. m k = Some v \<longrightarrow> v = f k)"

lemma agrees_le: "agrees m f \<Longrightarrow> m' \<subseteq>\<^sub>m m \<Longrightarrow> agrees m' f"
  by (auto simp: agrees_def map_le_Some_iff)

lemma agrees_upd: "agrees m f \<Longrightarrow> m' \<subseteq>\<^sub>m m(k \<mapsto> f k) \<Longrightarrow> agrees m' f"
  unfolding agrees_def map_le_Some_iff by (metis fun_upd_apply option.inject)

locale lookup_cache =
  fixes get :: "time_point \<Rightarrow> string \<Rightarrow> 'c \<Rightarrow> (json option \<times> 'c) outcome"
    and put :: "json_dump \<Rightarrow> time_point \<Rightarrow> string \<Rightarrow> json \<Rightarrow> CacheDataType \<Rightarrow> 'c \<Rightarrow> 'c outcome"
    and invar :: "'c \<Rightarrow> bool"
    and content :: "'c \<Rightarrow> string \<Rightarrow> json option"
  assumes get_law: "invar c \<Longrightarrow> \<exists>r c'. get now k c = Return (r, c') \<and> invar c' \<and>
        content c' \<subseteq>\<^sub>m content c \<and> (\<forall>j. r = Some j \<longrightarrow> content c k = Some j)"
    and put_law: "invar c \<Longrightarrow> dump j = Inr d \<Longrightarrow> \<exists>c'. put dump now k j t c = Return c' \<and> invar c' \<and>
        content c' k = Some j \<and> content c' \<subseteq>\<^sub>m (content c)(k \<mapsto> j)"
    and put_throw_law: "invar c \<Longrightarrow> dump j = Inl e \<Longrightarrow> put dump now k j t c = Throw e"
begin

text \<open>
  A cache that only ever holds the answers of a function \<open>f\<close> keeps doing so: a hit is the answer,
  and storing the answer for a key preserves agreement.
\<close>

lemma get_agrees:
  assumes "invar c" and "agrees (content c) f"
  shows "\<exists>r c'. get now k c = Return (r, c') \<and> invar c' \<and> agrees (content c') f \<and>
            (r = None \<or> r = Some (f k))"
proof -
  obtain r c' where g: "get now k c = Return (r, c')" "invar c'" "content c' \<subseteq>\<^sub>m content c"
    "\<forall>j. r = Some j \<longrightarrow> content c k = Some j" using get_law [OF assms(1)] by blast
  moreover have "agrees (content c') f" using assms(2) g(3) by (rule agrees_le)
  moreover have "r = None \<or> r = Some (f k)"
    using g(4) assms(2) by (cases r) (auto simp: agrees_def)
  ultimately show ?thesis by blast
qed

lemma put_agrees:
  assumes "invar c" and "agrees (content c) f" and "dump (f k) = Inr d"
  shows "\<exists>c'. put dump now k (f k) t c = Return c' \<and> invar c' \<and> agrees (content c') f"
proof -
  obtain c' where p: "put dump now k (f k) t c = Return c'" "invar c'"
    "content c' \<subseteq>\<^sub>m (content c)(k \<mapsto> f k)" using put_law [where dump = dump and j = "f k", OF assms(1,3)] by blast
  with agrees_upd [OF assms(2) p(3)] show ?thesis by blast
qed

end

lemma cache_content_le:
  "cache_stored hash c' \<subseteq>\<^sub>m cache_stored hash c \<Longrightarrow> cache_content hash c' \<subseteq>\<^sub>m cache_content hash c"
  by (auto simp: map_le_Some_iff cache_content_def)

interpretation ipc: lookup_cache "IPCache_get hash" "\<lambda>dump. IPCache_put dump hash" cache_ok "cache_content hash"
  for hash :: "string \<Rightarrow> u64"
proof (unfold_locales, goal_cases)
  case (1 c now k)
  then obtain c' where c': "IPCache_get hash now k c =
        Return (case cache_stored hash c k of None \<Rightarrow> None
                | Some v \<Rightarrow> if stored_expired now v then None else Some (fst v), c')"
      "cache_ok c'" "cache_stored hash c' \<subseteq>\<^sub>m cache_stored hash c"
    using IPCache_get_spec [of c hash now k] by blast
  have "(case cache_stored hash c k of None \<Rightarrow> None
         | Some v \<Rightarrow> if stored_expired now v then None else Some (fst v)) = Some j \<longrightarrow>
        cache_content hash c k = Some j" for j
    by (auto simp: cache_content_def split: option.splits)
  with c' cache_content_le [OF c'(3)] show ?case by blast
next
  case (2 c dump j d now k t)
  then obtain c' n where c': "IPCache_put dump hash now k j t c = Return c'" "cache_ok c'"
    "cache_stored hash c' k = Some (j, now, n, t)"
    "cache_stored hash c' \<subseteq>\<^sub>m (cache_stored hash c)(k \<mapsto> (j, now, n, t))"
    using IPCache_put_spec [of c dump j d hash now k t] by blast
  have "cache_content hash c' \<subseteq>\<^sub>m (cache_content hash c)(k \<mapsto> j)"
    using c'(4) unfolding map_le_Some_iff cache_content_def by (auto split: if_splits)
  with c' show ?case by (auto simp: cache_content_def)
next
  case (3 c dump j e now k t)
  then show ?case by (rule IPCache_put_throw)
qed

section \<open>Properties\<close>

text \<open>C25: A stored value is found again: after \<open>put\<close>, a \<open>get\<close> of the same key returns it as long as the
  entry type's time to live has not passed, and nothing once it has.\<close>

theorem cache_put_get:
  assumes "cache_ok c" and "dump r = Inr d"
  shows "\<exists>c' c''. IPCache_put dump hash now key r dt c = Return c' \<and> IPCache_get hash now' key c' =
     Return (if now' - now \<le> ttl_for_type dt then Some r else None, c'')"
proof -
  from IPCache_put_spec [where dump = dump and r = r and d = d, OF assms, of hash now key dt]
  obtain c' n where "IPCache_put dump hash now key r dt c = Return c'" "cache_ok c'"
    "cache_stored hash c' key = Some (r, now, n, dt)" by auto
  with IPCache_get_spec [of c' hash now' key] show ?thesis by (auto simp: not_less)
qed

theorem cache_put_get_witness:
  "\<exists>c c' c''. IPCache_new 100 2 = Return c \<and>
     IPCache_put (\<lambda>j. Inr ''null'') (\<lambda>k. of_nat (length k)) 0 ''8.8.8.8'' JNull NEGATIVE c = Return c' \<and>
     IPCache_get (\<lambda>k. of_nat (length k)) (seconds 300) ''8.8.8.8'' c' = Return (Some JNull, c'')"
proof -
  let ?dump = "\<lambda>j::json. Inr ''null'' :: exn + string" and ?hash = "\<lambda>k::string. of_nat (length k) :: u64"
  obtain c where c: "IPCache_new 100 2 = Return c" "cache_ok c"
    using IPCache_new_ok [of 2 100 ?hash] by auto
  from cache_put_get [where dump = ?dump, OF c(2) refl, of ?hash 0 "''8.8.8.8''" JNull NEGATIVE "seconds 300"] c
  show ?thesis by auto
qed

lemma stats_fold:
  assumes "\<forall>s\<in>set ss. shard_ok s" and "total_lookups a = hits a + misses a"
  defines "st \<equiv> foldl (\<lambda>combined s.
        (let combined = CacheStats_add combined (CacheShard_get_local_stats s) in
         combined\<lparr>stat_memory_usage_bytes :=
           stat_memory_usage_bytes combined + CacheShard_memory_usage s\<rparr>)) a ss"
  shows "total_lookups st = hits st + misses st \<and>
     stat_memory_usage_bytes st = stat_memory_usage_bytes a + sum_list (map (\<lambda>s. total_size (shard_view s)) ss)"
  using assms(1,2) unfolding st_def
proof (induction ss arbitrary: a)
  case Nil
  then show ?case by simp
next
  case (Cons s ss)
  let ?a = "CacheStats_add a (stats s)"
  have "shard_ok s" using Cons.prems by simp
  note m = shard_memory [OF this]
  from \<open>shard_ok s\<close> Cons.prems(2) have "total_lookups ?a = hits ?a + misses ?a"
    and "stat_memory_usage_bytes ?a = stat_memory_usage_bytes a"
    by (auto simp: CacheStats_add_def shard_ok_def)
  with Cons.IH [of "?a\<lparr>stat_memory_usage_bytes := stat_memory_usage_bytes ?a + memory_usage_bytes s\<rparr>"] Cons.prems(1) m
  show ?case
    by (simp add: CacheShard_get_local_stats_def CacheShard_memory_usage_def)
qed

text \<open>The statistics of the whole cache are consistent: lookups are hits plus misses, and the byte
  figure is the sum of what the shards hold.\<close>

lemma cache_stats_consistent:
  assumes "cache_ok c"
  shows "total_lookups (IPCache_get_stats c) = hits (IPCache_get_stats c) + misses (IPCache_get_stats c) \<and>
     stat_memory_usage_bytes (IPCache_get_stats c) =
       sum_list (map (\<lambda>s. total_size (shard_view s)) (shards c))"
  using stats_fold [of "shards c" CacheStats_zero] assms
  by (simp add: cache_ok_def IPCache_get_stats_def CacheStats_zero_def)

end
