(* ===== verification/Validation.thy ===== *)
theory Validation
  imports Prelude
begin

text \<open>
  \<open>validation.cpp\<close> and \<open>parseBoolString\<close> of \<open>validation.h\<close>. The C library's address parsers are
  parameters: \<open>inet_pton\<close> tells whether a C string is a dotted IPv4 address, \<open>getaddrinfo\<close> whether
  it is a numeric IPv6 address. Both see the string up to its first NUL.
\<close>

section \<open>Model\<close>

definition c_str :: "string \<Rightarrow> string" where
  "c_str s = takeWhile (\<lambda>c. c \<noteq> CHR 0x00) s"

definition isValidIpFormat :: "(string \<Rightarrow> bool) \<Rightarrow> (string \<Rightarrow> bool) \<Rightarrow> string \<Rightarrow> bool" where
  "isValidIpFormat inet_pton getaddrinfo ip =
     (if inet_pton (c_str ip) then True
      else if ip = [] \<or> find_char (CHR ''%'') ip \<noteq> None then False
      else if \<not> getaddrinfo (c_str ip) then False
      else True)"

fun mac_loop :: "string \<Rightarrow> nat list \<Rightarrow> bool" where
  "mac_loop mac [] = True"
| "mac_loop mac (i # is) =
     (if i mod 3 = 2
      then if mac ! i \<noteq> CHR '':'' \<and> mac ! i \<noteq> CHR ''-'' then False else mac_loop mac is
      else if \<not> is_xdigit (mac ! i) then False else mac_loop mac is)"

definition isValidMacFormat :: "string \<Rightarrow> bool" where
  "isValidMacFormat mac =
     (if length mac = 17 then mac_loop mac [0..<17]
      else if length mac = 12 then list_all is_xdigit mac
      else False)"

definition parseBoolString :: "string \<Rightarrow> bool" where
  "parseBoolString value \<longleftrightarrow> value = ''true'' \<or> value = ''1''"

section \<open>MAC addresses as text\<close>

definition separators :: "char set" where
  "separators = {CHR '':'', CHR ''-''}"

fun mac_weave :: "string \<Rightarrow> string \<Rightarrow> string" where
  "mac_weave (a # b # ds) (s # ss) = a # b # s # mac_weave ds ss"
| "mac_weave ds ss = ds"

definition hex_digits12 :: "string \<Rightarrow> bool" where
  "hex_digits12 ds \<longleftrightarrow> length ds = 12 \<and> list_all is_xdigit ds"

lemma mac_loop_17:
  "mac_loop [a, b, s, c, d, t, e, f, u, g, h, v, i, j, w, k, l] [0..<17] \<longleftrightarrow>
     list_all is_xdigit [a, b, c, d, e, f, g, h, i, j, k, l] \<and> {s, t, u, v, w} \<subseteq> separators"
  by (auto simp: upt_rec separators_def)

lemma length_17_weave:
  assumes "length mac = 17"
  shows "\<exists>ds ss. length ds = 12 \<and> length ss = 5 \<and> mac = mac_weave ds ss"
proof -
  from assms obtain a b s c d t e f u g h v i j w k l
    where "mac = [a, b, s, c, d, t, e, f, u, g, h, v, i, j, w, k, l]"
    by (auto simp: numeral_eq_Suc length_Suc_conv)
  then have "mac = mac_weave [a, b, c, d, e, f, g, h, i, j, k, l] [s, t, u, v, w]" by simp
  then show ?thesis by (intro exI [of _ "[a, b, c, d, e, f, g, h, i, j, k, l]"] exI [of _ "[s, t, u, v, w]"]) simp
qed

lemma valid_weave:
  assumes "length ds = 12" and "length ss = 5"
  shows "length (mac_weave ds ss) = 17"
    and "isValidMacFormat (mac_weave ds ss) \<longleftrightarrow> list_all is_xdigit ds \<and> set ss \<subseteq> separators"
    and "set ss \<subseteq> separators \<Longrightarrow> list_all is_xdigit ds \<Longrightarrow> filter is_xdigit (mac_weave ds ss) = ds"
proof -
  obtain a b c d e f g h i j k l where ds: "ds = [a, b, c, d, e, f, g, h, i, j, k, l]"
    using assms(1) by (auto simp: numeral_eq_Suc length_Suc_conv)
  obtain s t u v w where ss: "ss = [s, t, u, v, w]"
    using assms(2) by (auto simp: numeral_eq_Suc length_Suc_conv)
  have weave: "mac_weave ds ss = [a, b, s, c, d, t, e, f, u, g, h, v, i, j, w, k, l]"
    by (simp add: ds ss)
  show "length (mac_weave ds ss) = 17" by (simp add: weave)
  then show "isValidMacFormat (mac_weave ds ss) \<longleftrightarrow> list_all is_xdigit ds \<and> set ss \<subseteq> separators"
    unfolding isValidMacFormat_def weave mac_loop_17 by (simp add: ds ss)
  have sep: "x \<in> separators \<Longrightarrow> \<not> is_xdigit x" for x
    by (auto simp: separators_def is_xdigit_def)
  show "set ss \<subseteq> separators \<Longrightarrow> list_all is_xdigit ds \<Longrightarrow> filter is_xdigit (mac_weave ds ss) = ds"
    using sep by (simp add: ds ss)
qed

text \<open>What the format check accepts, as a set of texts.\<close>

lemma isValidMacFormat_iff:
  "isValidMacFormat mac \<longleftrightarrow>
     hex_digits12 mac \<or>
     (\<exists>ds ss. hex_digits12 ds \<and> length ss = 5 \<and> set ss \<subseteq> separators \<and> mac = mac_weave ds ss)"
  (is "_ \<longleftrightarrow> _ \<or> ?W")
proof (cases "length mac = 17")
  case True
  then obtain ds ss where w: "length ds = 12" "length ss = 5" "mac = mac_weave ds ss"
    using length_17_weave by blast
  then have "isValidMacFormat mac \<Longrightarrow> ?W"
    using valid_weave(2) [OF w(1,2)] by (intro exI [of _ ds] exI [of _ ss]) (simp add: hex_digits12_def)
  moreover have "?W \<Longrightarrow> isValidMacFormat mac"
    using valid_weave by (auto simp: hex_digits12_def)
  ultimately show ?thesis using True by (auto simp: hex_digits12_def)
next
  case False
  then have "\<not> ?W" using valid_weave(1) by (auto simp: hex_digits12_def)
  with False show ?thesis by (auto simp: isValidMacFormat_def hex_digits12_def)
qed

lemma valid_mac_digits:
  assumes "isValidMacFormat mac"
  shows "hex_digits12 (filter is_xdigit mac)"
  using assms valid_weave(3)
  by (auto simp: isValidMacFormat_iff hex_digits12_def list_all_iff filter_id_conv)

text \<open>C37: The MAC address check accepts exactly the texts of twelve hexadecimal digits, bare or in
  pairs separated by five characters each of which is a colon or a hyphen: separators may be mixed
  within one address, and nothing else passes.\<close>

theorem mac_format_exact:
  "isValidMacFormat mac \<longleftrightarrow>
     hex_digits12 mac \<or>
     (\<exists>ds ss. hex_digits12 ds \<and> length ss = 5 \<and> set ss \<subseteq> separators \<and> mac = mac_weave ds ss)"
  by (rule isValidMacFormat_iff)

lemma c_str_append_nul: "CHR 0x00 \<notin> set s \<Longrightarrow> c_str (s @ CHR 0x00 # t) = s"
  by (simp add: c_str_def takeWhile_append)

text \<open>An IPv4 address followed by a NUL character and any text passes the IP format check, since
  the C parsers see only the part before the NUL, while a percent sign is refused in everything that
  is not an IPv4 address.\<close>

lemma ip_format_nul:
  assumes "inet_pton ip" and "CHR 0x00 \<notin> set ip" and "\<not> inet_pton (c_str other)" and "CHR ''%'' \<in> set other"
  shows "isValidIpFormat inet_pton getaddrinfo (ip @ CHR 0x00 # junk) \<and>
    \<not> isValidIpFormat inet_pton getaddrinfo other"
proof -
  have "find_char (CHR ''%'') other \<noteq> None"
    using assms(4) by (induction other) (auto simp: find_char_def Let_def split: if_splits)
  with assms show ?thesis by (simp add: isValidIpFormat_def c_str_append_nul)
qed

end
