(* ===== verification/Resource.thy ===== *)
theory Resource
  imports Main
begin

text \<open>
  Objects that own an external handle, can be moved from and release the handle in their
  destructor. \<open>lifetime\<close> is every program over such objects: constructions, moves, move assignments
  and destructions in any order. The locale states what a class has to provide so that no handle is
  released twice and none is lost.
\<close>

inductive lifetime ::
  "('obj \<Rightarrow> 'h \<Rightarrow> bool) \<Rightarrow> ('obj \<Rightarrow> 'obj \<times> 'obj) \<Rightarrow> ('obj \<Rightarrow> 'obj \<Rightarrow> 'obj \<times> 'obj \<times> 'ev list) \<Rightarrow>
   ('obj \<Rightarrow> 'ev list) \<Rightarrow> 'h set \<Rightarrow> (nat \<Rightarrow> 'obj option) \<Rightarrow> 'ev list \<Rightarrow> bool"
  for made move_construct move_assign destruct
where
  start: "lifetime made move_construct move_assign destruct {} Map.empty []"
| construct: "lifetime made move_construct move_assign destruct opened store trace \<Longrightarrow>
    store i = None \<Longrightarrow> made obj h \<Longrightarrow> h \<notin> opened \<Longrightarrow>
    lifetime made move_construct move_assign destruct (insert h opened) (store(i \<mapsto> obj)) trace"
| move_init: "lifetime made move_construct move_assign destruct opened store trace \<Longrightarrow>
    store i = None \<Longrightarrow> store j = Some other \<Longrightarrow> move_construct other = (new, other') \<Longrightarrow>
    lifetime made move_construct move_assign destruct opened (store(i \<mapsto> new, j \<mapsto> other')) trace"
| assign: "lifetime made move_construct move_assign destruct opened store trace \<Longrightarrow>
    i \<noteq> j \<Longrightarrow> store i = Some this \<Longrightarrow> store j = Some other \<Longrightarrow>
    move_assign this other = (this', other', evs) \<Longrightarrow>
    lifetime made move_construct move_assign destruct opened (store(i \<mapsto> this', j \<mapsto> other')) (trace @ evs)"
| destroy: "lifetime made move_construct move_assign destruct opened store trace \<Longrightarrow>
    store i = Some obj \<Longrightarrow>
    lifetime made move_construct move_assign destruct opened (store(i := None)) (trace @ destruct obj)"

definition owner :: "('obj \<Rightarrow> 'h option) \<Rightarrow> (nat \<Rightarrow> 'obj option) \<Rightarrow> nat \<Rightarrow> 'h option" where
  "owner handle store i = Option.bind (store i) handle"

definition sole :: "(nat \<Rightarrow> 'h option) \<Rightarrow> bool" where
  "sole g \<longleftrightarrow> (\<forall>i j h. g i = Some h \<longrightarrow> g j = Some h \<longrightarrow> i = j)"

lemma owner_upd [simp]: "owner handle (store(i := x)) = (owner handle store)(i := Option.bind x handle)"
  by (auto simp: owner_def fun_eq_iff)

lemma sole_new: "sole g \<Longrightarrow> h \<notin> ran g \<Longrightarrow> sole (g(i \<mapsto> h))"
  unfolding sole_def ran_def by auto

lemma sole_drop: "sole g \<Longrightarrow> sole (g(i := None))"
  unfolding sole_def by auto

lemma sole_move: "sole g \<Longrightarrow> i \<noteq> j \<Longrightarrow> sole (g(i := g j, j := None))"
  unfolding sole_def by (auto split: if_splits)

lemma ran_drop: "sole g \<Longrightarrow> ran (g(i := None)) = ran g - set_option (g i)"
  unfolding sole_def ran_def by (auto split: if_splits)

lemma ran_move:
  assumes "sole g" "i \<noteq> j"
  shows "ran (g(i := g j, j := None)) = ran g - set_option (g i)" (is "?l = ?r")
proof (intro equalityI subsetI)
  fix h assume "h \<in> ?l"
  with assms show "h \<in> ?r" unfolding sole_def ran_def by (auto split: if_splits)
next
  fix h assume "h \<in> ?r"
  then obtain k where k: "g k = Some h" "g i \<noteq> Some h" by (auto simp: ran_def)
  show "h \<in> ?l"
  proof (cases "k = j")
    case True
    with k assms(2) have "(g(i := g j, j := None)) i = Some h" by simp
    then show ?thesis by (rule ranI)
  next
    case False
    with k have "(g(i := g j, j := None)) k = Some h" by auto
    then show ?thesis by (rule ranI)
  qed
qed

locale movable_resource =
  fixes made :: "'obj \<Rightarrow> 'h \<Rightarrow> bool"
    and handle :: "'obj \<Rightarrow> 'h option"
    and ok :: "'obj \<Rightarrow> bool"
    and release :: "'h \<Rightarrow> 'ev list"
    and move_construct :: "'obj \<Rightarrow> 'obj \<times> 'obj"
    and move_assign :: "'obj \<Rightarrow> 'obj \<Rightarrow> 'obj \<times> 'obj \<times> 'ev list"
    and destruct :: "'obj \<Rightarrow> 'ev list"
  assumes made_law: "made obj h \<Longrightarrow> ok obj \<and> handle obj = Some h"
    and move_construct_law: "ok other \<Longrightarrow> move_construct other = (new, other') \<Longrightarrow>
      ok new \<and> ok other' \<and> handle new = handle other \<and> handle other' = None"
    and move_assign_law: "ok this \<Longrightarrow> ok other \<Longrightarrow> move_assign this other = (this', other', evs) \<Longrightarrow>
      ok this' \<and> ok other' \<and> handle this' = handle other \<and> handle other' = None \<and>
      evs = (case handle this of None \<Rightarrow> [] | Some h \<Rightarrow> release h)"
    and destruct_law: "ok obj \<Longrightarrow> destruct obj = (case handle obj of None \<Rightarrow> [] | Some h \<Rightarrow> release h)"
begin

definition accounted :: "'h set \<Rightarrow> (nat \<Rightarrow> 'obj option) \<Rightarrow> 'ev list \<Rightarrow> bool" where
  "accounted opened store trace \<longleftrightarrow>
     (\<forall>i obj. store i = Some obj \<longrightarrow> ok obj) \<and> sole (owner handle store) \<and>
     (\<exists>cs. trace = concat (map release cs) \<and> distinct cs \<and>
        set cs \<inter> ran (owner handle store) = {} \<and> set cs \<union> ran (owner handle store) = opened)"

lemma accounted_construct:
  assumes "accounted opened store trace" "store i = None" "made obj h" "h \<notin> opened"
  shows "accounted (insert h opened) (store(i \<mapsto> obj)) trace"
proof -
  note made = made_law [OF assms(3)]
  have "owner handle store i = None" using assms(2) by (simp add: owner_def)
  then have "ran (owner handle (store(i \<mapsto> obj))) = insert h (ran (owner handle store))"
    using made by simp
  with assms made show ?thesis unfolding accounted_def by (auto intro: sole_new)
qed

lemma accounted_release:
  assumes "accounted opened store trace"
    and "ran (owner handle store') = ran (owner handle store) - set_option (owner handle store i)"
    and "sole (owner handle store')" "\<forall>i obj. store' i = Some obj \<longrightarrow> ok obj"
  shows "accounted opened store' (trace @ (case owner handle store i of None \<Rightarrow> [] | Some h \<Rightarrow> release h))"
proof (cases "owner handle store i")
  case None
  with assms show ?thesis unfolding accounted_def by auto
next
  case (Some h)
  from assms(1) obtain cs where cs: "trace = concat (map release cs)" "distinct cs"
    "set cs \<inter> ran (owner handle store) = {}" "set cs \<union> ran (owner handle store) = opened"
    unfolding accounted_def by auto
  have "h \<in> ran (owner handle store)" using Some by (rule ranI)
  with cs Some assms(2) have "trace @ release h = concat (map release (cs @ [h]))" "distinct (cs @ [h])"
    "set (cs @ [h]) \<inter> ran (owner handle store') = {}" "set (cs @ [h]) \<union> ran (owner handle store') = opened"
    by auto
  with assms(3,4) Some show ?thesis unfolding accounted_def by (metis option.simps(5))
qed

lemma accounted_move:
  assumes "accounted opened store trace" "store i = None" "store j = Some other"
    "move_construct other = (new, other')"
  shows "accounted opened (store(i \<mapsto> new, j \<mapsto> other')) trace"
proof -
  have ok: "\<forall>i obj. store i = Some obj \<longrightarrow> ok obj" and sole: "sole (owner handle store)"
    using assms(1) by (auto simp: accounted_def)
  have law: "ok new" "ok other'" "handle new = handle other" "handle other' = None"
    using move_construct_law [OF _ assms(4)] ok assms(3) by auto
  have ij: "i \<noteq> j" using assms(2,3) by auto
  let ?g = "owner handle store"
  have g: "owner handle (store(i \<mapsto> new, j \<mapsto> other')) = ?g(i := ?g j, j := None)"
    using law assms(3) by (simp add: owner_def)
  have i: "?g i = None" using assms(2) by (simp add: owner_def)
  have "accounted opened (store(i \<mapsto> new, j \<mapsto> other')) (trace @ (case ?g i of None \<Rightarrow> [] | Some h \<Rightarrow> release h))"
    using ok law by (intro accounted_release [OF assms(1)]) (auto simp only: g ran_move [OF sole ij] sole_move [OF sole ij]
        fun_upd_apply split: if_splits)
  with i show ?thesis by simp
qed

lemma accounted_destroy:
  assumes "accounted opened store trace" "store i = Some obj"
  shows "accounted opened (store(i := None)) (trace @ destruct obj)"
proof -
  have ok: "\<forall>i obj. store i = Some obj \<longrightarrow> ok obj" and sole: "sole (owner handle store)"
    using assms(1) by (auto simp: accounted_def)
  let ?g = "owner handle store"
  have "accounted opened (store(i := None)) (trace @ (case ?g i of None \<Rightarrow> [] | Some h \<Rightarrow> release h))"
    using ok by (intro accounted_release [OF assms(1)]) (auto simp: ran_drop [OF sole] sole_drop [OF sole])
  moreover have "?g i = handle obj" using assms(2) by (simp add: owner_def)
  ultimately show ?thesis using destruct_law ok assms(2) by simp
qed

lemma accounted_assign:
  assumes "accounted opened store trace" "i \<noteq> j" "store i = Some this" "store j = Some other"
    "move_assign this other = (this', other', evs)"
  shows "accounted opened (store(i \<mapsto> this', j \<mapsto> other')) (trace @ evs)"
proof -
  have ok: "\<forall>i obj. store i = Some obj \<longrightarrow> ok obj" and sole: "sole (owner handle store)"
    using assms(1) by (auto simp: accounted_def)
  have law: "ok this'" "ok other'" "handle this' = handle other" "handle other' = None"
    "evs = (case handle this of None \<Rightarrow> [] | Some h \<Rightarrow> release h)"
    using move_assign_law [OF _ _ assms(5)] ok assms(3,4) by auto
  let ?g = "owner handle store"
  have g: "owner handle (store(i \<mapsto> this', j \<mapsto> other')) = ?g(i := ?g j, j := None)"
    using law assms(4) by (simp add: owner_def)
  have "accounted opened (store(i \<mapsto> this', j \<mapsto> other')) (trace @ (case ?g i of None \<Rightarrow> [] | Some h \<Rightarrow> release h))"
    using ok law by (intro accounted_release [OF assms(1)]) (auto simp only: g ran_move [OF sole assms(2)]
        sole_move [OF sole assms(2)] fun_upd_apply split: if_splits)
  moreover have "?g i = handle this" using assms(3) by (simp add: owner_def)
  ultimately show ?thesis using law(5) by simp
qed

lemma lifetime_accounted:
  "lifetime made move_construct move_assign destruct opened store trace \<Longrightarrow> accounted opened store trace"
proof (induction rule: lifetime.induct)
  case start
  then show ?case by (auto simp: accounted_def sole_def owner_def ran_def)
next
  case (construct opened store trace i obj h)
  then show ?case using accounted_construct by blast
next
  case (move_init opened store trace i j other new other')
  then show ?case using accounted_move by blast
next
  case (assign opened store trace i j this other this' other' evs)
  then show ?case using accounted_assign by blast
next
  case (destroy opened store trace i obj)
  then show ?case using accounted_destroy by blast
qed

lemma released_once:
  assumes "lifetime made move_construct move_assign destruct opened store trace"
  shows "\<exists>cs. trace = concat (map release cs) \<and> distinct cs \<and> set cs \<subseteq> opened \<and>
    (store = Map.empty \<longrightarrow> set cs = opened)"
  using lifetime_accounted [OF assms] unfolding accounted_def by (auto simp: owner_def ran_def)

end

end
