(* ===== verification/Maxmind_Database.thy ===== *)
theory Maxmind_Database
  imports Json Validation Resource
begin

text \<open>
  \<open>database/maxmind_database.cpp\<close>, \<open>city_database.cpp\<close> and \<open>asn_database.cpp\<close>: lookups in two
  MaxMind files. The MaxMind library is a record of functions; the bytes behind an entry's pointer
  and \<open>data_size\<close> are one string. The locale \<open>ip_database\<close> is what the geolocation service relies
  on of either database.
\<close>

section \<open>Model\<close>

record entry_data =
  has_data :: bool
  utf8_string :: string
  double_value :: double
  uint32 :: "32 word"

record mmdb =
  MMDB_open :: "string \<Rightarrow> int \<times> nat"
  MMDB_strerror :: "int \<Rightarrow> string"
  MMDB_lookup_string :: "nat \<Rightarrow> string \<Rightarrow> int \<times> int \<times> bool \<times> nat" \<comment> \<open>gai error, error, found, entry\<close>
  MMDB_aget_value :: "nat \<Rightarrow> string list \<Rightarrow> int \<times> entry_data"

abbreviation (input) MMDB_SUCCESS :: int where "MMDB_SUCCESS \<equiv> 0"

datatype mmdb_event = MMDB_close nat

record MaxMindDatabase =
  mmdb_handle :: nat \<comment> \<open>0 for the value-initialised structure\<close>
  mm_is_open :: bool

definition MaxMindDatabase_new :: "mmdb \<Rightarrow> string \<Rightarrow> MaxMindDatabase outcome" where
  "MaxMindDatabase_new lib db_path =
     (let (status, h) = MMDB_open lib (c_str db_path) in
      if status \<noteq> MMDB_SUCCESS
      then Throw (Runtime_error (''Failed to open MaxMind DB '' @ [CHR 0x27] @ db_path @ [CHR 0x27] @ '': '' @
             MMDB_strerror lib status))
      else Return \<lparr>mmdb_handle = h, mm_is_open = True\<rparr>)"

definition MaxMindDatabase_destruct :: "MaxMindDatabase \<Rightarrow> mmdb_event list" where
  "MaxMindDatabase_destruct this = (if mm_is_open this then [MMDB_close (mmdb_handle this)] else [])"

definition MaxMindDatabase_move :: "MaxMindDatabase \<Rightarrow> MaxMindDatabase \<times> MaxMindDatabase" where
  "MaxMindDatabase_move other =
     (\<lparr>mmdb_handle = mmdb_handle other, mm_is_open = mm_is_open other\<rparr>,
      other\<lparr>mm_is_open := False, mmdb_handle := 0\<rparr>)"

definition MaxMindDatabase_move_assign ::
  "MaxMindDatabase \<Rightarrow> MaxMindDatabase \<Rightarrow> MaxMindDatabase \<times> MaxMindDatabase \<times> mmdb_event list" where
  "MaxMindDatabase_move_assign this other =
     (let evs = (if mm_is_open this then [MMDB_close (mmdb_handle this)] else [])
      in (this\<lparr>mmdb_handle := mmdb_handle other, mm_is_open := mm_is_open other\<rparr>,
          other\<lparr>mm_is_open := False, mmdb_handle := 0\<rparr>, evs))"

definition perform_lookup :: "mmdb \<Rightarrow> MaxMindDatabase \<Rightarrow> string \<Rightarrow> json_object \<times> nat" where
  \<comment> \<open>the JSON object, and the entry of the result filled in by the library (0 before the call)\<close>
  "perform_lookup lib this ip_address =
     (if \<not> mm_is_open this
      then (obj_of [(''error'', JStr ''Database not open''), (''ip'', JStr ip_address)], 0)
      else let (gai_error, mmdb_error, found_entry, entry) =
                 MMDB_lookup_string lib (mmdb_handle this) (c_str ip_address) in
        if gai_error \<noteq> 0
        then (obj_of [(''error'', JStr ''Invalid IP address''), (''ip'', JStr ip_address)], entry)
        else if mmdb_error \<noteq> MMDB_SUCCESS
        then (obj_of [(''error'', JStr (''MaxMind DB lookup error: '' @ MMDB_strerror lib mmdb_error)),
                      (''ip'', JStr ip_address)], entry)
        else if \<not> found_entry
        then (obj_of [(''ip'', JStr ip_address), (''found'', JBool False)], entry)
        else (obj_of [(''ip'', JStr ip_address), (''found'', JBool True)], entry))"

definition get_value :: "mmdb \<Rightarrow> nat \<Rightarrow> string list \<Rightarrow> entry_data option" where
  "get_value lib entry path =
     (let (status, data) = MMDB_aget_value lib entry path
      in if status = MMDB_SUCCESS \<and> has_data data then Some data else None)"

definition put_value ::
  "mmdb \<Rightarrow> nat \<Rightarrow> json_object \<Rightarrow> string list \<times> string \<times> (entry_data \<Rightarrow> json) \<Rightarrow> json_object" where
  \<comment> \<open>one \<open>if (get_value(...)) result[key] = ...;\<close>\<close>
  "put_value lib entry = (\<lambda>result (path, key, read).
     (case get_value lib entry path of
        Some data \<Rightarrow> obj_put key (read data) result
      | None \<Rightarrow> result))"

definition CITY_FIELDS :: "(string list \<times> string \<times> (entry_data \<Rightarrow> json)) list" where
  "CITY_FIELDS =
     [([''country'', ''names'', ''en''], ''country'', \<lambda>data. JStr (utf8_string data)),
      ([''country'', ''iso_code''], ''country_code'', \<lambda>data. JStr (utf8_string data)),
      ([''city'', ''names'', ''en''], ''city'', \<lambda>data. JStr (utf8_string data)),
      ([''continent'', ''names'', ''en''], ''continent'', \<lambda>data. JStr (utf8_string data)),
      ([''location'', ''latitude''], ''latitude'', \<lambda>data. JReal (double_value data)),
      ([''location'', ''longitude''], ''longitude'', \<lambda>data. JReal (double_value data)),
      ([''location'', ''time_zone''], ''timezone'', \<lambda>data. JStr (utf8_string data))]"

definition ASN_FIELDS :: "(string list \<times> string \<times> (entry_data \<Rightarrow> json)) list" where
  "ASN_FIELDS =
     [([''autonomous_system_organization''], ''as_organization'', \<lambda>data. JStr (utf8_string data)),
      ([''autonomous_system_number''], ''as_number'', \<lambda>data. JInt (uint (uint32 data)))]"

definition CityDatabase_lookup :: "mmdb \<Rightarrow> MaxMindDatabase \<Rightarrow> string \<Rightarrow> json outcome" where
  "CityDatabase_lookup lib this ip_address =
     (let (result, entry) = perform_lookup lib this ip_address in
      if json_contains (JObj result) ''error'' then Return (JObj result)
      else obind (value_bool result ''found'' False) (\<lambda>found.
        if \<not> found then Return (JObj result)
        else Return (JObj (foldl (put_value lib entry) result CITY_FIELDS))))"

definition ASNDatabase_lookup :: "mmdb \<Rightarrow> MaxMindDatabase \<Rightarrow> string \<Rightarrow> json outcome" where
  "ASNDatabase_lookup lib this ip_address =
     (let (result, entry) = perform_lookup lib this ip_address in
      if json_contains (JObj result) ''error'' then Return (JObj result)
      else obind (value_bool result ''found'' False) (\<lambda>found.
        if \<not> found then Return (JObj result)
        else Return (JObj (foldl (put_value lib entry) result ASN_FIELDS))))"

section \<open>Ownership of the file\<close>

definition mm_made :: "MaxMindDatabase \<Rightarrow> nat \<Rightarrow> bool" where
  "mm_made obj h \<longleftrightarrow> (\<exists>lib path. MaxMindDatabase_new lib path = Return obj) \<and> h = mmdb_handle obj"

definition mm_owns :: "MaxMindDatabase \<Rightarrow> nat option" where
  "mm_owns obj = (if mm_is_open obj then Some (mmdb_handle obj) else None)"

interpretation mm: movable_resource mm_made mm_owns "\<lambda>obj. True" "\<lambda>h. [MMDB_close h]"
  MaxMindDatabase_move MaxMindDatabase_move_assign MaxMindDatabase_destruct
  by unfold_locales
    (auto simp: mm_made_def mm_owns_def MaxMindDatabase_new_def MaxMindDatabase_move_def Let_def
      MaxMindDatabase_move_assign_def MaxMindDatabase_destruct_def case_prod_beta split: if_splits)

text \<open>C30: In every program that constructs, moves, move-assigns and destroys MaxMind databases, each
  opened file is closed at most once, and when no object is left every opened file has been
  closed.\<close>

theorem mm_released_once:
  assumes "lifetime mm_made MaxMindDatabase_move MaxMindDatabase_move_assign MaxMindDatabase_destruct
    opened store trace"
  shows "\<exists>cs. trace = map MMDB_close cs \<and> distinct cs \<and> set cs \<subseteq> opened \<and>
    (store = Map.empty \<longrightarrow> set cs = opened)"
proof -
  have "concat (map (\<lambda>h. [MMDB_close h]) cs) = map MMDB_close cs" for cs by (induction cs) auto
  with mm.released_once [OF assms] show ?thesis by simp
qed

definition toy_mmdb :: mmdb where
  "toy_mmdb = \<lparr>MMDB_open = (\<lambda>p. (MMDB_SUCCESS, length p)), MMDB_strerror = (\<lambda>e. ''error''),
     MMDB_lookup_string = (\<lambda>h ip. (if ip = ''bad'' then 1 else 0, MMDB_SUCCESS, ip = ''8.8.8.8'', 7)),
     MMDB_aget_value = (\<lambda>e path. (if path = [''country'', ''iso_code''] then MMDB_SUCCESS else 9,
        \<lparr>has_data = True, utf8_string = ''US'', double_value = 0, uint32 = 0\<rparr>))\<rparr>"

theorem mm_released_once_witness:
  "\<exists>cs. [MMDB_close 5, MMDB_close 6] = map MMDB_close cs \<and> distinct cs \<and> set cs \<subseteq> {6, 5}"
proof -
  define a b e :: MaxMindDatabase where "a = \<lparr>mmdb_handle = 5, mm_is_open = True\<rparr>"
    and "b = \<lparr>mmdb_handle = 6, mm_is_open = True\<rparr>" and "e = \<lparr>mmdb_handle = 0, mm_is_open = False\<rparr>"
  let ?L = "lifetime mm_made MaxMindDatabase_move MaxMindDatabase_move_assign MaxMindDatabase_destruct"
  have new: "MaxMindDatabase_new toy_mmdb ''a.mmd'' = Return a" "MaxMindDatabase_new toy_mmdb ''ab.mmd'' = Return b"
    by (simp_all add: MaxMindDatabase_new_def toy_mmdb_def c_str_def a_def b_def)
  then have made: "mm_made a 5" "mm_made b 6"
    unfolding mm_made_def by (auto simp: a_def b_def)
  have 1: "?L {5} (Map.empty(0 \<mapsto> a)) []"
    by (intro lifetime.construct lifetime.start) (auto simp: made)
  have 2: "?L {6, 5} (Map.empty(0 \<mapsto> a, 2 \<mapsto> b)) []"
    by (intro lifetime.construct [OF 1]) (auto simp: made)
  have 3: "?L {6, 5} (Map.empty(0 \<mapsto> a, 2 \<mapsto> b, 0 \<mapsto> b, 2 \<mapsto> e)) ([] @ [MMDB_close 5])"
    by (rule lifetime.assign [OF 2]) (auto simp: MaxMindDatabase_move_assign_def a_def b_def e_def)
  have 4: "?L {6, 5} ((Map.empty(0 \<mapsto> a, 2 \<mapsto> b, 0 \<mapsto> b, 2 \<mapsto> e))(0 := None))
      (([] @ [MMDB_close 5]) @ MaxMindDatabase_destruct b)"
    by (rule lifetime.destroy [OF 3]) simp
  have "MaxMindDatabase_destruct b = [MMDB_close 6]" by (simp add: MaxMindDatabase_destruct_def b_def)
  with mm_released_once [OF 4] show ?thesis by auto
qed

section \<open>Answers\<close>

definition ip_answer :: "string \<Rightarrow> json outcome \<Rightarrow> bool" where
  \<comment> \<open>an object that names the address and has either an error or a flag \<open>found\<close>\<close>
  "ip_answer ip r \<longleftrightarrow> (\<exists>obj. r = Return (JObj obj) \<and> obj_ok obj \<and>
     map_of obj ''ip'' = Some (JStr ip) \<and>
     (if map_of obj ''error'' = None then \<exists>b. map_of obj ''found'' = Some (JBool b)
      else map_of obj ''found'' = None))"

locale ip_database =
  fixes lookup :: "string \<Rightarrow> json outcome"
  assumes answers: "ip_answer ip (lookup ip)"
begin

lemma lookup_object:
  obtains obj where "lookup ip = Return (JObj obj)" "obj_ok obj" "map_of obj ''ip'' = Some (JStr ip)"
    "map_of obj ''error'' = None \<longrightarrow> (\<exists>b. map_of obj ''found'' = Some (JBool b))"
  using answers [of ip] unfolding ip_answer_def by (auto split: if_splits)

lemma found_flag:
  "lookup ip = Return (JObj obj) \<Longrightarrow> value_bool obj ''found'' False = Return (map_of obj ''found'' = Some (JBool True))"
  using answers [of ip] unfolding ip_answer_def value_bool_def by (auto split: if_splits option.splits)

end

lemma ip_answer_object:
  "ip_answer ip (Return (JObj obj)) \<longleftrightarrow> obj_ok obj \<and> map_of obj ''ip'' = Some (JStr ip) \<and>
     (if map_of obj ''error'' = None then \<exists>b. map_of obj ''found'' = Some (JBool b)
      else map_of obj ''found'' = None)"
  by (simp add: ip_answer_def)

lemma obj_ok_put_values [simp]: "obj_ok obj \<Longrightarrow> obj_ok (foldl (put_value lib entry) obj fs)"
  by (induction fs arbitrary: obj) (auto simp: put_value_def split: option.splits)

lemma map_of_put_values:
  "distinct (map (\<lambda>(path, key, read). key) fs) \<Longrightarrow>
   map_of (foldl (put_value lib entry) obj fs) k =
     (case map_of (map (\<lambda>(path, key, read). (key, (path, read))) fs) k of
        None \<Rightarrow> map_of obj k
      | Some (path, read) \<Rightarrow> (case get_value lib entry path of None \<Rightarrow> map_of obj k | Some data \<Rightarrow> Some (read data)))"
proof (induction fs arbitrary: obj)
  case Nil
  then show ?case by simp
next
  case (Cons f fs)
  obtain path key read where f: "f = (path, key, read)" by (cases f)
  have "map_of (map (\<lambda>(path, key, read). (key, (path, read))) fs) key = None"
    using Cons.prems f by (force simp: map_of_eq_None_iff)
  with Cons f show ?case by (auto simp: put_value_def split: option.splits)
qed

lemma city_field_names: "distinct (map (\<lambda>(path, key, read). key) CITY_FIELDS)"
  "k \<in> {''ip'', ''found'', ''error''} \<Longrightarrow> map_of (map (\<lambda>(path, key, read). (key, (path, read))) CITY_FIELDS) k = None"
  by (auto simp: CITY_FIELDS_def)

lemma asn_field_names: "distinct (map (\<lambda>(path, key, read). key) ASN_FIELDS)"
  "k \<in> {''ip'', ''found'', ''error''} \<Longrightarrow> map_of (map (\<lambda>(path, key, read). (key, (path, read))) ASN_FIELDS) k = None"
  by (auto simp: ASN_FIELDS_def)

lemma perform_lookup_shape:
  "perform_lookup lib this ip = (obj, entry) \<Longrightarrow>
     obj_ok obj \<and> map_of obj ''ip'' = Some (JStr ip) \<and>
     (if map_of obj ''error'' = None then \<exists>b. map_of obj ''found'' = Some (JBool b) else map_of obj ''found'' = None)"
  by (auto simp: perform_lookup_def map_of_obj_of Let_def case_prod_beta split: if_splits)

lemma fields_answer:
  assumes "perform_lookup lib this ip = (obj, entry)"
    and "distinct (map (\<lambda>(path, key, read). key) fs)"
    and "\<And>k. k \<in> {''ip'', ''found'', ''error''} \<Longrightarrow> map_of (map (\<lambda>(path, key, read). (key, (path, read))) fs) k = None"
  shows "ip_answer ip (if json_contains (JObj obj) ''error'' then Return (JObj obj)
      else obind (value_bool obj ''found'' False) (\<lambda>found. if \<not> found then Return (JObj obj)
        else Return (JObj (foldl (put_value lib entry) obj fs))))"
proof -
  have keep: "map_of (foldl (put_value lib entry) obj fs) k = map_of obj k" if "k \<in> {''ip'', ''found'', ''error''}" for k
    using assms(3) [OF that] by (simp add: map_of_put_values [OF assms(2)])
  show ?thesis
    using perform_lookup_shape [OF assms(1)]
    by (auto simp: ip_answer_object json_contains_def value_bool_def keep split: if_splits)
qed

interpretation city: ip_database "CityDatabase_lookup lib this" for lib this
proof
  fix ip
  show "ip_answer ip (CityDatabase_lookup lib this ip)"
    using fields_answer [OF surjective_pairing city_field_names]
    by (simp add: CityDatabase_lookup_def case_prod_beta)
qed

interpretation asn: ip_database "ASNDatabase_lookup lib this" for lib this
proof
  fix ip
  show "ip_answer ip (ASNDatabase_lookup lib this ip)"
    using fields_answer [OF surjective_pairing asn_field_names]
    by (simp add: ASNDatabase_lookup_def case_prod_beta)
qed



end
