(* ===== verification/Mac_Database.thy ===== *)
theory Mac_Database
  imports Json Validation Resource
begin

text \<open>
  \<open>mac_database.cpp\<close>: the OUI registry behind one prepared SQLite statement. The SQLite library is a
  record of functions; the message of \<open>sqlite3_errmsg\<close> may depend on the connection and the status
  just returned, and a step on the bound text of the statement. Releases of statements and
  connections are events.
\<close>

section \<open>Model\<close>

record sqlite =
  sqlite3_open_v2 :: "string \<Rightarrow> int \<times> nat option"
  sqlite3_errmsg :: "nat \<Rightarrow> int \<Rightarrow> string"
  sqlite3_exec :: "nat \<Rightarrow> string \<Rightarrow> int"
  sqlite3_prepare_v2 :: "nat \<Rightarrow> string \<Rightarrow> int \<times> nat option"
  sqlite3_bind_text :: "nat \<Rightarrow> string \<Rightarrow> int"
  sqlite3_step :: "nat \<Rightarrow> string \<Rightarrow> int"
  sqlite3_column_text :: "nat \<Rightarrow> string \<Rightarrow> nat \<Rightarrow> string option"

datatype sqlite_event = Finalize nat | Close nat

abbreviation (input) SQLITE_OK :: int where "SQLITE_OK \<equiv> 0"
abbreviation (input) SQLITE_ROW :: int where "SQLITE_ROW \<equiv> 100"
abbreviation (input) SQLITE_DONE :: int where "SQLITE_DONE \<equiv> 101"

definition OUI_LOOKUP_SQL :: string where
  "OUI_LOOKUP_SQL = ''SELECT oui, manufacturer, registry, short_name, '' @
     ''device_type, registered_date, address, sources '' @ ''FROM oui_registry WHERE oui = ?''"

record OUIDatabase =
  db :: "nat option"
  lookup_stmt :: "nat option"
  oui_is_open :: bool

fun finalize :: "nat option \<Rightarrow> sqlite_event list" where
  \<comment> \<open>\<open>SQLiteStmtDeleter\<close>, run by \<open>unique_ptr::reset\<close>\<close>
  "finalize (Some stmt) = [Finalize stmt]"
| "finalize None = []"

fun sqlite3_close :: "nat option \<Rightarrow> sqlite_event list" where
  "sqlite3_close (Some d) = [Close d]"
| "sqlite3_close None = []"

definition OUIDatabase_new :: "sqlite \<Rightarrow> string \<Rightarrow> OUIDatabase outcome \<times> sqlite_event list" where
  "OUIDatabase_new sq db_path =
     (let (status, handle) = sqlite3_open_v2 sq (c_str db_path) in
      if status \<noteq> SQLITE_OK then
        (let err = (case handle of Some d \<Rightarrow> sqlite3_errmsg sq d status | None \<Rightarrow> ''unknown error'')
         in (Throw (Runtime_error (''Failed to open OUI database '' @ [CHR 0x27] @ db_path @ [CHR 0x27] @
               '': '' @ err)), sqlite3_close handle))
      else case handle of
        None \<Rightarrow> (Undefined, [])
      | Some d \<Rightarrow>
          (let wal_status = sqlite3_exec sq d ''PRAGMA journal_mode=WAL;'';
               (status, raw_stmt) = sqlite3_prepare_v2 sq d OUI_LOOKUP_SQL
           in if status \<noteq> SQLITE_OK
              then (Throw (Runtime_error (''Failed to prepare OUI lookup statement: '' @
                      sqlite3_errmsg sq d status)), sqlite3_close (Some d))
              else (Return \<lparr>db = Some d, lookup_stmt = raw_stmt, oui_is_open = True\<rparr>, [])))"

definition OUIDatabase_destruct :: "OUIDatabase \<Rightarrow> sqlite_event list" where
  \<comment> \<open>the destructor's body, then the destruction of the member \<open>lookup_stmt_\<close>\<close>
  "OUIDatabase_destruct this =
     (if oui_is_open this then finalize (lookup_stmt this) @ sqlite3_close (db this)
      else finalize (lookup_stmt this))"

definition OUIDatabase_move :: "OUIDatabase \<Rightarrow> OUIDatabase \<times> OUIDatabase" where
  "OUIDatabase_move other =
     (\<lparr>db = db other, lookup_stmt = lookup_stmt other, oui_is_open = oui_is_open other\<rparr>,
      \<lparr>db = None, lookup_stmt = None, oui_is_open = False\<rparr>)"

definition OUIDatabase_move_assign ::
  "OUIDatabase \<Rightarrow> OUIDatabase \<Rightarrow> OUIDatabase \<times> OUIDatabase \<times> sqlite_event list" where
  \<comment> \<open>of two different objects; assigning the moved statement releases the one it replaces\<close>
  "OUIDatabase_move_assign this other =
     (let (this1, evs) = (if oui_is_open this
            then (this\<lparr>lookup_stmt := None\<rparr>, finalize (lookup_stmt this) @ sqlite3_close (db this))
            else (this, []))
      in (\<lparr>db = db other, lookup_stmt = lookup_stmt other, oui_is_open = oui_is_open other\<rparr>,
          \<lparr>db = None, lookup_stmt = None, oui_is_open = False\<rparr>,
          evs @ finalize (lookup_stmt this1)))"

fun normalize_mac_address :: "string \<Rightarrow> string" where
  "normalize_mac_address [] = []"
| "normalize_mac_address (c # mac_address) =
     (if is_xdigit c then to_upper c # normalize_mac_address mac_address
      else normalize_mac_address mac_address)"

definition extract_oui :: "string \<Rightarrow> string" where
  "extract_oui normalized_mac =
     (if length normalized_mac \<ge> 6
      then (let oui = substr normalized_mac 0 6
            in substr oui 0 2 @ '':'' @ substr oui 2 2 @ '':'' @ substr oui 4 2)
      else [])"

definition OUI_COLUMNS :: "(nat \<times> string) list" where
  "OUI_COLUMNS = [(1, ''manufacturer''), (2, ''registry''), (3, ''short_name''), (4, ''device_type''),
     (5, ''registered_date''), (6, ''address''), (7, ''sources'')]"

definition put_column :: "sqlite \<Rightarrow> nat \<Rightarrow> string \<Rightarrow> json_object \<Rightarrow> nat \<times> string \<Rightarrow> json_object" where
  "put_column sq stmt oui = (\<lambda>result (col_idx, key).
     (case sqlite3_column_text sq stmt oui col_idx of
        Some col \<Rightarrow> obj_put key (JStr col) result
      | None \<Rightarrow> result))"

definition OUIDatabase_lookup :: "sqlite \<Rightarrow> OUIDatabase \<Rightarrow> string \<Rightarrow> json outcome" where
  "OUIDatabase_lookup sq this mac_address =
     (if \<not> oui_is_open this then Return (JObj [(''error'', JStr ''Database not open'')])
      else let normalized = normalize_mac_address mac_address in
        if length normalized \<noteq> 12 then Return (JObj [(''error'', JStr ''Invalid MAC address format'')])
        else let oui = extract_oui normalized in
          case (db this, lookup_stmt this) of
            (Some d, Some stmt) \<Rightarrow>
              (let status = sqlite3_bind_text sq stmt (c_str oui) in
               if status \<noteq> SQLITE_OK
               then Return (JObj [(''error'', JStr (''Failed to bind parameter: '' @ sqlite3_errmsg sq d status))])
               else let status = sqlite3_step sq stmt (c_str oui) in
                 if status = SQLITE_ROW
                 then Return (JObj (foldl (put_column sq stmt (c_str oui))
                        (obj_of [(''mac'', JStr mac_address), (''oui'', JStr oui), (''found'', JBool True)])
                        OUI_COLUMNS))
                 else if status = SQLITE_DONE
                 then Return (JObj (obj_of [(''mac'', JStr mac_address), (''oui'', JStr oui),
                        (''found'', JBool False)]))
                 else Return (JObj [(''error'', JStr (''Query failed: '' @ sqlite3_errmsg sq d status))]))
          | _ \<Rightarrow> Undefined)"

section \<open>Ownership of the connection\<close>

definition oui_made :: "OUIDatabase \<Rightarrow> nat option \<times> nat option \<Rightarrow> bool" where
  "oui_made obj h \<longleftrightarrow> (\<exists>sq path evs. OUIDatabase_new sq path = (Return obj, evs)) \<and> h = (db obj, lookup_stmt obj)"

definition oui_handle :: "OUIDatabase \<Rightarrow> (nat option \<times> nat option) option" where
  "oui_handle obj = (if oui_is_open obj then Some (db obj, lookup_stmt obj) else None)"

definition oui_ok :: "OUIDatabase \<Rightarrow> bool" where
  "oui_ok obj \<longleftrightarrow> (if oui_is_open obj then db obj \<noteq> None else db obj = None \<and> lookup_stmt obj = None)"

definition oui_release :: "nat option \<times> nat option \<Rightarrow> sqlite_event list" where
  \<comment> \<open>the statement before its connection\<close>
  "oui_release h = finalize (snd h) @ sqlite3_close (fst h)"

lemma OUIDatabase_new_open:
  "OUIDatabase_new sq path = (Return obj, evs) \<Longrightarrow> oui_is_open obj \<and> db obj \<noteq> None \<and> evs = []"
  by (auto simp: OUIDatabase_new_def Let_def case_prod_beta split: if_splits option.splits)

interpretation oui: movable_resource oui_made oui_handle oui_ok oui_release
  OUIDatabase_move OUIDatabase_move_assign OUIDatabase_destruct
proof
  fix obj h assume "oui_made obj h"
  then show "oui_ok obj \<and> oui_handle obj = Some h"
    by (auto simp: oui_made_def oui_ok_def oui_handle_def dest: OUIDatabase_new_open)
qed (auto simp: oui_ok_def oui_handle_def oui_release_def OUIDatabase_move_def
      OUIDatabase_move_assign_def OUIDatabase_destruct_def split: if_splits)


definition toy_sqlite :: sqlite where
  "toy_sqlite = \<lparr>sqlite3_open_v2 = (\<lambda>p. (SQLITE_OK, Some 1)), sqlite3_errmsg = (\<lambda>d e. ''error''),
     sqlite3_exec = (\<lambda>d q. SQLITE_OK), sqlite3_prepare_v2 = (\<lambda>d q. (SQLITE_OK, Some 2)),
     sqlite3_bind_text = (\<lambda>st t. SQLITE_OK),
     sqlite3_step = (\<lambda>st t. if t = ''00:1A:2B'' then SQLITE_ROW else SQLITE_DONE),
     sqlite3_column_text = (\<lambda>st t i. if i = 1 then Some ''Acme'' else None)\<rparr>"

lemma toy_open: "OUIDatabase_new toy_sqlite p = (Return \<lparr>db = Some 1, lookup_stmt = Some 2, oui_is_open = True\<rparr>, [])"
  by (simp add: OUIDatabase_new_def toy_sqlite_def)


section \<open>Lookup\<close>

lemma normalize_mac_address_eq: "normalize_mac_address mac = map to_upper (filter is_xdigit mac)"
  by (induction mac) auto

lemma valid_mac_normalized: "isValidMacFormat mac \<Longrightarrow> length (normalize_mac_address mac) = 12"
  using valid_mac_digits [of mac] by (simp add: normalize_mac_address_eq hex_digits12_def)

lemma map_of_put_columns:
  "distinct (map snd cols) \<Longrightarrow> map_of (foldl (put_column sq stmt oui) obj cols) key =
     (case map_of (map (\<lambda>(i, k). (k, i)) cols) key of
        None \<Rightarrow> map_of obj key
      | Some i \<Rightarrow> (case sqlite3_column_text sq stmt oui i of None \<Rightarrow> map_of obj key | Some c \<Rightarrow> Some (JStr c)))"
proof (induction cols arbitrary: obj)
  case Nil
  then show ?case by simp
next
  case (Cons col cols)
  obtain i k where col: "col = (i, k)" by (cases col)
  have "k \<notin> snd ` set cols" using Cons.prems col by simp
  then have "map_of (map (\<lambda>(i, k). (k, i)) cols) k = None"
    by (force simp: map_of_eq_None_iff)
  with Cons col show ?case
    by (auto simp: put_column_def split: option.splits)
qed

lemma map_of_oui_columns:
  "map_of (foldl (put_column sq stmt oui) obj OUI_COLUMNS) key =
     (case map_of (map (\<lambda>(i, k). (k, i)) OUI_COLUMNS) key of
        None \<Rightarrow> map_of obj key
      | Some i \<Rightarrow> (case sqlite3_column_text sq stmt oui i of None \<Rightarrow> map_of obj key | Some c \<Rightarrow> Some (JStr c)))"
  by (rule map_of_put_columns) (simp add: OUI_COLUMNS_def)

lemma oui_column_names:
  "(i, key) \<in> set OUI_COLUMNS \<Longrightarrow> map_of (map (\<lambda>(i, k). (k, i)) OUI_COLUMNS) key = Some i \<and>
     key \<notin> {''mac'', ''oui'', ''found'', ''error''}"
  by (auto simp: OUI_COLUMNS_def)

lemma oui_not_column:
  "key \<in> {''mac'', ''oui'', ''found'', ''error''} \<Longrightarrow> map_of (map (\<lambda>(i, k). (k, i)) OUI_COLUMNS) key = None"
  by (auto simp: OUI_COLUMNS_def)

definition oui_open :: "OUIDatabase \<Rightarrow> nat \<Rightarrow> nat \<Rightarrow> bool" where
  "oui_open this d stmt \<longleftrightarrow> oui_is_open this \<and> db this = Some d \<and> lookup_stmt this = Some stmt"

lemma lookup_open:
  assumes "oui_open this d stmt" "length (normalize_mac_address mac) = 12"
    "sqlite3_bind_text sq stmt (c_str (extract_oui (normalize_mac_address mac))) = SQLITE_OK"
  shows "OUIDatabase_lookup sq this mac =
    (let oui = extract_oui (normalize_mac_address mac); status = sqlite3_step sq stmt (c_str oui);
         base = (\<lambda>b. obj_of [(''mac'', JStr mac), (''oui'', JStr oui), (''found'', JBool b)])
     in Return (JObj (if status = SQLITE_ROW then foldl (put_column sq stmt (c_str oui)) (base True) OUI_COLUMNS
        else if status = SQLITE_DONE then base False
        else [(''error'', JStr (''Query failed: '' @ sqlite3_errmsg sq d status))])))"
  using assms by (simp add: OUIDatabase_lookup_def oui_open_def Let_def)

lemma map_of_base:
  "map_of (obj_of [(''mac'', v), (''oui'', u), (''found'', b)]) =
     [''mac'' \<mapsto> v, ''oui'' \<mapsto> u, ''found'' \<mapsto> b]"
  by (subst map_of_obj_of) (auto simp: fun_eq_iff)

lemma oui_answer:
  assumes "oui_open this d stmt"
  obtains obj where "OUIDatabase_lookup sq this mac = Return (JObj obj)"
    "map_of obj ''error'' = None \<longrightarrow> (\<exists>b. map_of obj ''found'' = Some (JBool b))"
proof -
  have "\<exists>obj. OUIDatabase_lookup sq this mac = Return (JObj obj) \<and>
      (map_of obj ''error'' = None \<longrightarrow> (\<exists>b. map_of obj ''found'' = Some (JBool b)))"
    using assms by (auto simp: OUIDatabase_lookup_def oui_open_def map_of_oui_columns map_of_base oui_not_column Let_def)
  then show thesis by (elim exE conjE) (rule that)
qed



text \<open>The answer of the registry depends on the twelve hexadecimal digits of an address only:
  however the digits are grouped by separators and whichever case they have, two addresses with the
  same digits give objects that agree on every member but the echoed \<open>mac\<close>.\<close>

lemma oui_lookup_spelling:
  assumes "hex_digits12 ds" and "length ss = 5" "set ss \<subseteq> separators"
    and "OUIDatabase_lookup sq this (mac_weave ds ss) = Return (JObj obj1)"
    and "OUIDatabase_lookup sq this ds = Return (JObj obj2)"
    and "key \<noteq> ''mac''"
  shows "map_of obj1 key = map_of obj2 key"
proof -
  have "filter is_xdigit (mac_weave ds ss) = ds" "filter is_xdigit ds = ds"
    using assms(1-3) by (auto simp: valid_weave(3) hex_digits12_def list_all_iff filter_id_conv)
  then have norm: "normalize_mac_address (mac_weave ds ss) = normalize_mac_address ds"
    by (simp add: normalize_mac_address_eq)
  show ?thesis
    using assms(4-6) norm unfolding OUIDatabase_lookup_def Let_def
    by (auto simp: map_of_oui_columns map_of_base split: if_splits option.splits)
qed

end
