(* ===== verification/Lookup_Service.thy ===== *)
theory Lookup_Service
  imports IP_Cache Maxmind_Database Mac_Database
begin

text \<open>
  \<open>service/ip_geo_service.cpp\<close>, \<open>service/mac_lookup_service.cpp\<close> and \<open>types.h\<close>: lookups through the
  cache. Both services satisfy the locale \<open>lookup_service\<close>: whatever the history of the cache, an
  answer is the one a service without cache would give.
\<close>

section \<open>Model\<close>

record LookupResult =
  lr_data :: json
  cache_hit :: bool

definition ScopedTimer_elapsed :: "(real \<Rightarrow> real) \<Rightarrow> time_point \<Rightarrow> time_point \<Rightarrow> double" where
  "ScopedTimer_elapsed fl start now = fl (real_of_int (now - start) / 1000000)"

record IPGeoService =
  city_db :: MaxMindDatabase
  asn_db :: MaxMindDatabase
  geo_cache :: IPCache

definition IPGeoService_new :: "mmdb \<Rightarrow> string \<Rightarrow> string \<Rightarrow> IPGeoService outcome \<times> mmdb_event list" where
  \<comment> \<open>members are initialised in declaration order; a throwing one destroys those before it\<close>
  "IPGeoService_new lib city_db_path asn_db_path =
     (case MaxMindDatabase_new lib city_db_path of
        Throw e \<Rightarrow> (Throw e, [])
      | Undefined \<Rightarrow> (Undefined, [])
      | Return city \<Rightarrow>
          (case MaxMindDatabase_new lib asn_db_path of
             Throw e \<Rightarrow> (Throw e, MaxMindDatabase_destruct city)
           | Undefined \<Rightarrow> (Undefined, [])
           | Return asn \<Rightarrow> (obind (IPCache_new DEFAULT_MAX_MEMORY 8) (\<lambda>c.
               Return \<lparr>city_db = city, asn_db = asn, geo_cache = c\<rparr>), [])))"

definition geo_store ::
  "json_dump \<Rightarrow> (string \<Rightarrow> u64) \<Rightarrow> time_point \<Rightarrow> string \<Rightarrow> json_object \<Rightarrow> CacheDataType \<Rightarrow>
   IPGeoService \<Rightarrow> (json_object \<times> IPGeoService) outcome" where
  \<comment> \<open>\<open>cache_.put\<close> inside the \<open>try\<close> block, with the handler of its exception\<close>
  "geo_store dump hash now ip_address result dtype svc =
     catch_exn
       (obind (IPCache_put dump hash now ip_address (JObj result) dtype (geo_cache svc)) (\<lambda>c.
          Return (result, svc\<lparr>geo_cache := c\<rparr>)))
       (\<lambda>e. Return (obj_put ''error'' (JStr (what e)) result, svc))"

definition geo_query ::
  "mmdb \<Rightarrow> json_dump \<Rightarrow> (string \<Rightarrow> u64) \<Rightarrow> time_point \<Rightarrow> string \<Rightarrow> IPGeoService \<Rightarrow>
   (json_object \<times> IPGeoService) outcome" where
  "geo_query lib dump hash now ip_address svc =
     (let result = obj_of [(''ip'', JStr ip_address), (''found'', JBool False)] in
      catch_exn
        (obind (CityDatabase_lookup lib (city_db svc) ip_address) (\<lambda>city_result.
         obind (ASNDatabase_lookup lib (asn_db svc) ip_address) (\<lambda>asn_result.
           case json_at city_result ''error'' of
             Some err \<Rightarrow> Return (obj_put ''error'' err result, svc)
           | None \<Rightarrow>
               obind (json_value_bool city_result ''found'' False) (\<lambda>city_found.
               obind (json_value_bool asn_result ''found'' False) (\<lambda>asn_found.
                 if \<not> city_found \<and> \<not> asn_found
                 then geo_store dump hash now ip_address result NEGATIVE svc
                 else let result = obj_put ''found'' (JBool True) result;
                          result = (if city_found then obj_update result (members city_result) else result);
                          result = (if asn_found then obj_update result (members asn_result) else result)
                      in geo_store dump hash now ip_address result IP_GEOLOCATION svc)))))
        (\<lambda>e. Return (obj_put ''error'' (JStr (what e)) result, svc)))"

definition IPGeoService_lookup ::
  "mmdb \<Rightarrow> json_dump \<Rightarrow> (string \<Rightarrow> u64) \<Rightarrow> time_point \<Rightarrow> time_point \<Rightarrow> string \<Rightarrow> IPGeoService \<Rightarrow>
   (LookupResult \<times> IPGeoService) outcome" where
  \<comment> \<open>\<open>now\<close> is the clock in \<open>cache_.get\<close>, \<open>now2\<close> the clock in \<open>cache_.put\<close>\<close>
  "IPGeoService_lookup lib dump hash now now2 ip_address svc =
     obind (IPCache_get hash now ip_address (geo_cache svc)) (\<lambda>(cached, c).
       let svc = svc\<lparr>geo_cache := c\<rparr> in
       case cached of
         Some j \<Rightarrow> Return (\<lparr>lr_data = j, cache_hit = True\<rparr>, svc)
       | None \<Rightarrow> obind (geo_query lib dump hash now2 ip_address svc) (\<lambda>(result, svc).
           Return (\<lparr>lr_data = JObj result, cache_hit = False\<rparr>, svc)))"

text \<open>
  The same method as the two parts between which another thread may run: \<open>cache_.get\<close>, and after a miss
  the query with its \<open>cache_.put\<close>. Each touches the shared state once, under the mutex of a shard; the
  databases are only read.
\<close>

definition geo_probe :: "(string \<Rightarrow> u64) \<Rightarrow> time_point \<Rightarrow> string \<Rightarrow> IPGeoService \<Rightarrow> (json option \<times> IPGeoService) outcome" where
  "geo_probe hash now ip_address svc =
     obind (IPCache_get hash now ip_address (geo_cache svc)) (\<lambda>(cached, c). Return (cached, svc\<lparr>geo_cache := c\<rparr>))"

definition geo_fill ::
  "mmdb \<Rightarrow> json_dump \<Rightarrow> (string \<Rightarrow> u64) \<Rightarrow> time_point \<Rightarrow> string \<Rightarrow> IPGeoService \<Rightarrow> (json \<times> IPGeoService) outcome" where
  "geo_fill lib dump hash now ip_address svc =
     obind (geo_query lib dump hash now ip_address svc) (\<lambda>(result, svc). Return (JObj result, svc))"

definition IPGeoService_cache_stats :: "IPGeoService \<Rightarrow> CacheStats" where
  "IPGeoService_cache_stats svc = IPCache_get_stats (geo_cache svc)"

record MACLookupService =
  oui_db :: OUIDatabase
  mac_cache :: IPCache

definition MACLookupService_new :: "sqlite \<Rightarrow> string \<Rightarrow> MACLookupService outcome \<times> sqlite_event list" where
  "MACLookupService_new sq oui_db_path =
     (let (r, evs) = OUIDatabase_new sq oui_db_path
      in (obind r (\<lambda>d. obind (IPCache_new (50 * 1024 * 1024) 8) (\<lambda>c.
            Return \<lparr>oui_db = d, mac_cache = c\<rparr>)), evs))"

definition mac_store ::
  "json_dump \<Rightarrow> (string \<Rightarrow> u64) \<Rightarrow> time_point \<Rightarrow> string \<Rightarrow> json \<Rightarrow> MACLookupService \<Rightarrow>
   (json \<times> MACLookupService) outcome" where
  \<comment> \<open>the rest of the \<open>try\<close> block once \<open>result\<close> is an answer without error, with its handler\<close>
  "mac_store dump hash now mac_address result svc =
     catch_exn
       (obind (json_value_bool result ''found'' False) (\<lambda>found.
        obind (IPCache_put dump hash now mac_address result (if found then MAC_OUI else NEGATIVE)
                 (mac_cache svc)) (\<lambda>c.
          Return (result, svc\<lparr>mac_cache := c\<rparr>))))
       (\<lambda>e. Return (JObj (obj_put ''error'' (JStr (what e)) (members result)), svc))"

definition mac_query ::
  "sqlite \<Rightarrow> json_dump \<Rightarrow> (string \<Rightarrow> u64) \<Rightarrow> time_point \<Rightarrow> string \<Rightarrow> MACLookupService \<Rightarrow>
   (json \<times> MACLookupService) outcome" where
  "mac_query sq dump hash now mac_address svc =
     catch_exn (obind (OUIDatabase_lookup sq (oui_db svc) mac_address) (\<lambda>result.
          if json_contains result ''error'' then Return (result, svc)
          else mac_store dump hash now mac_address result svc))
       (\<lambda>e. Return (JObj [(''error'', JStr (what e))], svc))"

definition MACLookupService_lookup ::
  "sqlite \<Rightarrow> json_dump \<Rightarrow> (string \<Rightarrow> u64) \<Rightarrow> time_point \<Rightarrow> time_point \<Rightarrow> string \<Rightarrow> MACLookupService \<Rightarrow>
   (LookupResult \<times> MACLookupService) outcome" where
  "MACLookupService_lookup sq dump hash now now2 mac_address svc =
     obind (IPCache_get hash now mac_address (mac_cache svc)) (\<lambda>(cached, c).
       let svc = svc\<lparr>mac_cache := c\<rparr> in
       case cached of
         Some j \<Rightarrow> Return (\<lparr>lr_data = j, cache_hit = True\<rparr>, svc)
       | None \<Rightarrow> obind (mac_query sq dump hash now2 mac_address svc) (\<lambda>(result, svc).
           Return (\<lparr>lr_data = result, cache_hit = False\<rparr>, svc)))"

definition mac_probe :: "(string \<Rightarrow> u64) \<Rightarrow> time_point \<Rightarrow> string \<Rightarrow> MACLookupService \<Rightarrow> (json option \<times> MACLookupService) outcome" where
  "mac_probe hash now mac_address svc =
     obind (IPCache_get hash now mac_address (mac_cache svc)) (\<lambda>(cached, c). Return (cached, svc\<lparr>mac_cache := c\<rparr>))"

definition MACLookupService_cache_stats :: "MACLookupService \<Rightarrow> CacheStats" where
  "MACLookupService_cache_stats svc = IPCache_get_stats (mac_cache svc)"

section \<open>The contract of a lookup service\<close>

fun service_run :: "(time_point \<Rightarrow> time_point \<Rightarrow> string \<Rightarrow> 's \<Rightarrow> (LookupResult \<times> 's) outcome) \<Rightarrow>
    (time_point \<times> time_point \<times> string) list \<Rightarrow> 's \<Rightarrow> (json list \<times> 's) outcome" where
  "service_run lookup [] s = Return ([], s)"
| "service_run lookup ((now, now2, k) # qs) s =
     obind (lookup now now2 k s) (\<lambda>(r, s). obind (service_run lookup qs s) (\<lambda>(js, s).
       Return (lr_data r # js, s)))"

locale lookup_service =
  fixes lookup :: "time_point \<Rightarrow> time_point \<Rightarrow> string \<Rightarrow> 's \<Rightarrow> (LookupResult \<times> 's) outcome"
    and invar :: "'s \<Rightarrow> bool"
    and answer :: "'s \<Rightarrow> string \<Rightarrow> json"
  assumes lookup_law: "invar s \<Longrightarrow> \<exists>hit s'. lookup now now2 k s = Return (\<lparr>lr_data = answer s k, cache_hit = hit\<rparr>, s') \<and>
      invar s' \<and> answer s' = answer s"
begin

lemma run_answers:
  "invar s \<Longrightarrow> \<exists>s'. service_run lookup qs s = Return (map (\<lambda>(now, now2, k). answer s k) qs, s') \<and>
     invar s' \<and> answer s' = answer s"
proof (induction qs arbitrary: s)
  case Nil
  then show ?case by simp
next
  case (Cons q qs)
  obtain now now2 k where q: "q = (now, now2, k)" by (cases q)
  obtain hit s1 where s1: "lookup now now2 k s = Return (\<lparr>lr_data = answer s k, cache_hit = hit\<rparr>, s1)"
    "invar s1" "answer s1 = answer s" using lookup_law [OF Cons.prems] by blast
  from Cons.IH [OF s1(2)] obtain s2 where
    "service_run lookup qs s1 = Return (map (\<lambda>(now, now2, k). answer s k) qs, s2)" "invar s2" "answer s2 = answer s"
    using s1(3) by auto
  with q s1 show ?case by simp
qed

end

text \<open>A lookup in two parts, of which the second runs only after a miss.\<close>

definition staged ::
  "(time_point \<Rightarrow> string \<Rightarrow> 's \<Rightarrow> (json option \<times> 's) outcome) \<Rightarrow> (time_point \<Rightarrow> string \<Rightarrow> 's \<Rightarrow> (json \<times> 's) outcome) \<Rightarrow>
   time_point \<Rightarrow> time_point \<Rightarrow> string \<Rightarrow> 's \<Rightarrow> (LookupResult \<times> 's) outcome" where
  "staged probe fill now now2 k s =
     obind (probe now k s) (\<lambda>(cached, s).
       case cached of
         Some j \<Rightarrow> Return (\<lparr>lr_data = j, cache_hit = True\<rparr>, s)
       | None \<Rightarrow> obind (fill now2 k s) (\<lambda>(j, s). Return (\<lparr>lr_data = j, cache_hit = False\<rparr>, s)))"

locale cached_service =
  fixes probe :: "time_point \<Rightarrow> string \<Rightarrow> 's \<Rightarrow> (json option \<times> 's) outcome"
    and fill :: "time_point \<Rightarrow> string \<Rightarrow> 's \<Rightarrow> (json \<times> 's) outcome"
    and invar :: "'s \<Rightarrow> bool"
    and answer :: "'s \<Rightarrow> string \<Rightarrow> json"
  assumes probe_law: "invar s \<Longrightarrow> \<exists>r s'. probe now k s = Return (r, s') \<and> (r = None \<or> r = Some (answer s k)) \<and>
      invar s' \<and> answer s' = answer s"
    and fill_law: "invar s \<Longrightarrow> \<exists>s'. fill now k s = Return (answer s k, s') \<and> invar s' \<and> answer s' = answer s"

sublocale cached_service \<subseteq> lookup_service "staged probe fill" invar answer
proof
  fix s now now2 k assume "invar s"
  from probe_law [OF this] obtain r s1 where s1: "probe now k s = Return (r, s1)" "r = None \<or> r = Some (answer s k)"
    "invar s1" "answer s1 = answer s" by blast
  with fill_law [OF s1(3), of now2 k] show "\<exists>hit s'. staged probe fill now now2 k s =
      Return (\<lparr>lr_data = answer s k, cache_hit = hit\<rparr>, s') \<and> invar s' \<and> answer s' = answer s"
    by (auto simp: staged_def)
qed

section \<open>Geolocation answers\<close>

fun result_of :: "json outcome \<Rightarrow> json_object" where
  "result_of (Return j) = members j"
| "result_of _ = []"

definition is_found :: "json_object \<Rightarrow> bool" where
  "is_found obj \<longleftrightarrow> map_of obj ''found'' = Some (JBool True)"

definition geo_merge :: "string \<Rightarrow> json_object \<Rightarrow> json_object \<Rightarrow> json_object" where
  \<comment> \<open>the answer made of a city and an ASN answer\<close>
  "geo_merge ip c a =
     (let base = obj_of [(''ip'', JStr ip), (''found'', JBool False)] in
      case map_of c ''error'' of
        Some err \<Rightarrow> obj_put ''error'' err base
      | None \<Rightarrow>
          if is_found c \<or> is_found a
          then (let r = obj_put ''found'' (JBool True) base;
                    r = (if is_found c then obj_update r c else r)
                in if is_found a then obj_update r a else r)
          else base)"

definition geo_answer :: "mmdb \<Rightarrow> IPGeoService \<Rightarrow> string \<Rightarrow> json_object" where
  "geo_answer lib svc ip = geo_merge ip (result_of (CityDatabase_lookup lib (city_db svc) ip))
     (result_of (ASNDatabase_lookup lib (asn_db svc) ip))"

definition cacheable_reply :: "json_dump \<Rightarrow> json_object \<Rightarrow> json" where
  \<comment> \<open>an answer that goes through the cache: if it cannot be serialised the error is reported in it\<close>
  "cacheable_reply dump obj = (case dump (JObj obj) of
     Inr d \<Rightarrow> JObj obj | Inl e \<Rightarrow> JObj (obj_put ''error'' (JStr (what e)) obj))"

definition geo_reply :: "mmdb \<Rightarrow> json_dump \<Rightarrow> IPGeoService \<Rightarrow> string \<Rightarrow> json" where
  "geo_reply lib dump svc ip =
     (if map_of (result_of (CityDatabase_lookup lib (city_db svc) ip)) ''error'' \<noteq> None
      then JObj (geo_answer lib svc ip) else cacheable_reply dump (geo_answer lib svc ip))"

definition geo_invar :: "mmdb \<Rightarrow> json_dump \<Rightarrow> (string \<Rightarrow> u64) \<Rightarrow> IPGeoService \<Rightarrow> bool" where
  "geo_invar lib dump hash svc \<longleftrightarrow> cache_ok (geo_cache svc) \<and>
     agrees (cache_content hash (geo_cache svc)) (geo_reply lib dump svc)"

lemma geo_reply_cache [simp]: "geo_reply lib dump (svc\<lparr>geo_cache := c\<rparr>) = geo_reply lib dump svc"
  by (simp add: geo_reply_def geo_answer_def fun_eq_iff)

lemma geo_store_reply:
  assumes "geo_invar lib dump hash svc"
    and "geo_reply lib dump svc ip = cacheable_reply dump obj"
  shows "\<exists>r svc'. geo_store dump hash now ip obj t svc = Return (r, svc') \<and> JObj r = geo_reply lib dump svc ip \<and>
    geo_invar lib dump hash svc' \<and> geo_reply lib dump svc' = geo_reply lib dump svc"
proof (cases "dump (JObj obj)")
  case (Inl e)
  then have "geo_store dump hash now ip obj t svc = Return (obj_put ''error'' (JStr (what e)) obj, svc)"
    using assms(1) ipc.put_throw_law [of "geo_cache svc" dump "JObj obj" e hash now ip t]
    by (simp add: geo_store_def geo_invar_def)
  with Inl assms show ?thesis by (simp add: cacheable_reply_def)
next
  case (Inr d)
  with assms(2) have f: "geo_reply lib dump svc ip = JObj obj" by (simp add: cacheable_reply_def)
  then obtain c' where "IPCache_put dump hash now ip (JObj obj) t (geo_cache svc) = Return c'" "cache_ok c'"
    "agrees (cache_content hash c') (geo_reply lib dump svc)"
    using ipc.put_agrees [of "geo_cache svc" hash "geo_reply lib dump svc" dump ip d now t] assms(1) Inr
    by (auto simp: geo_invar_def)
  with f show ?thesis by (simp add: geo_store_def geo_invar_def)
qed

lemma geo_query_reply:
  assumes "geo_invar lib dump hash svc"
  shows "\<exists>r svc'. geo_query lib dump hash now ip svc = Return (r, svc') \<and> JObj r = geo_reply lib dump svc ip \<and>
    geo_invar lib dump hash svc' \<and> geo_reply lib dump svc' = geo_reply lib dump svc"
proof -
  obtain c where c: "CityDatabase_lookup lib (city_db svc) ip = Return (JObj c)"
    using city.lookup_object by metis
  obtain a where a: "ASNDatabase_lookup lib (asn_db svc) ip = Return (JObj a)"
    using asn.lookup_object by metis
  have found: "json_value_bool (JObj c) ''found'' False = Return (is_found c)"
    "json_value_bool (JObj a) ''found'' False = Return (is_found a)"
    using city.found_flag [OF c] asn.found_flag [OF a] by (simp_all add: json_value_bool_def is_found_def)
  show ?thesis
  proof (cases "map_of c ''error''")
    case (Some err)
    then show ?thesis
      using assms c a by (simp add: geo_query_def json_at_def geo_reply_def geo_answer_def geo_merge_def Let_def)
  next
    case None
    define t where "t = (if is_found c \<or> is_found a then IP_GEOLOCATION else NEGATIVE)"
    have q: "geo_query lib dump hash now ip svc =
        catch_exn (geo_store dump hash now ip (geo_merge ip c a) t svc)
          (\<lambda>e. Return (obj_put ''error'' (JStr (what e)) (obj_of [(''ip'', JStr ip), (''found'', JBool False)]), svc))"
      using None by (simp add: geo_query_def c a found json_at_def geo_merge_def t_def Let_def)
    have "geo_reply lib dump svc ip = cacheable_reply dump (geo_merge ip c a)"
      using None by (simp add: geo_reply_def c a geo_answer_def)
    from geo_store_reply [OF assms this] obtain r svc' where
      "geo_store dump hash now ip (geo_merge ip c a) t svc = Return (r, svc')" "JObj r = geo_reply lib dump svc ip"
      "geo_invar lib dump hash svc'" "geo_reply lib dump svc' = geo_reply lib dump svc" by blast
    with q show ?thesis by simp
  qed
qed

interpretation geo_steps: cached_service "geo_probe hash" "geo_fill lib dump hash" "geo_invar lib dump hash" "geo_reply lib dump"
  for lib dump hash
proof (unfold_locales, goal_cases)
  case (1 svc now k)
  then obtain r c' where "IPCache_get hash now k (geo_cache svc) = Return (r, c')" "cache_ok c'"
    "agrees (cache_content hash c') (geo_reply lib dump svc)" "r = None \<or> r = Some (geo_reply lib dump svc k)"
    using ipc.get_agrees [of "geo_cache svc" hash "geo_reply lib dump svc" now k] by (auto simp: geo_invar_def)
  then show ?case by (auto simp: geo_probe_def geo_invar_def)
next
  case (2 svc now k)
  from geo_query_reply [OF this, of now k] show ?case by (auto simp: geo_fill_def)
qed

lemma IPGeoService_lookup_staged: "IPGeoService_lookup lib dump hash = staged (geo_probe hash) (geo_fill lib dump hash)"
  by (intro ext) (simp add: IPGeoService_lookup_def staged_def geo_probe_def geo_fill_def Let_def split_def obind_assoc
      cong: option.case_cong)

interpretation geo: lookup_service "IPGeoService_lookup lib dump hash" "geo_invar lib dump hash" "geo_reply lib dump"
  for lib dump hash
  unfolding IPGeoService_lookup_staged by (rule geo_steps.lookup_service_axioms)

section \<open>MAC answers\<close>

definition mac_reply :: "sqlite \<Rightarrow> json_dump \<Rightarrow> MACLookupService \<Rightarrow> string \<Rightarrow> json" where
  "mac_reply sq dump svc mac =
     (let obj = result_of (OUIDatabase_lookup sq (oui_db svc) mac)
      in if map_of obj ''error'' \<noteq> None then JObj obj else cacheable_reply dump obj)"

definition mac_invar :: "sqlite \<Rightarrow> json_dump \<Rightarrow> (string \<Rightarrow> u64) \<Rightarrow> MACLookupService \<Rightarrow> bool" where
  "mac_invar sq dump hash svc \<longleftrightarrow> (\<exists>d stmt. oui_open (oui_db svc) d stmt) \<and> cache_ok (mac_cache svc) \<and>
     agrees (cache_content hash (mac_cache svc)) (mac_reply sq dump svc)"

lemma mac_reply_cache [simp]: "mac_reply sq dump (svc\<lparr>mac_cache := c\<rparr>) = mac_reply sq dump svc"
  by (simp add: mac_reply_def fun_eq_iff)

lemma mac_store_reply:
  assumes "mac_invar sq dump hash svc" "mac_reply sq dump svc mac = cacheable_reply dump obj"
    and "map_of obj ''found'' = Some (JBool b)"
  shows "\<exists>svc'. mac_store dump hash now mac (JObj obj) svc = Return (mac_reply sq dump svc mac, svc') \<and>
    mac_invar sq dump hash svc' \<and> mac_reply sq dump svc' = mac_reply sq dump svc"
proof (cases "dump (JObj obj)")
  case (Inl e)
  with assms show ?thesis
    using ipc.put_throw_law [of "mac_cache svc" dump "JObj obj" e hash]
    by (simp add: mac_store_def mac_invar_def cacheable_reply_def json_value_bool_def value_bool_def)
next
  case (Inr d)
  with assms(2) have f: "mac_reply sq dump svc mac = JObj obj" by (simp add: cacheable_reply_def)
  then obtain c' where "IPCache_put dump hash now mac (JObj obj) (if b then MAC_OUI else NEGATIVE) (mac_cache svc) = Return c'"
    "cache_ok c'" "agrees (cache_content hash c') (mac_reply sq dump svc)"
    using ipc.put_agrees [of "mac_cache svc" hash "mac_reply sq dump svc" dump mac d now "if b then MAC_OUI else NEGATIVE"]
      assms(1) Inr by (auto simp: mac_invar_def)
  with f assms show ?thesis by (simp add: mac_store_def mac_invar_def json_value_bool_def value_bool_def)
qed

lemma mac_query_reply:
  assumes "mac_invar sq dump hash svc"
  shows "\<exists>svc'. mac_query sq dump hash now mac svc = Return (mac_reply sq dump svc mac, svc') \<and>
    mac_invar sq dump hash svc' \<and> mac_reply sq dump svc' = mac_reply sq dump svc"
proof -
  from assms obtain d stmt where "oui_open (oui_db svc) d stmt" by (auto simp: mac_invar_def)
  then obtain obj where obj: "OUIDatabase_lookup sq (oui_db svc) mac = Return (JObj obj)"
    "map_of obj ''error'' = None \<longrightarrow> (\<exists>b. map_of obj ''found'' = Some (JBool b))"
    by (rule oui_answer [where sq = sq and mac = mac])
  show ?thesis
  proof (cases "map_of obj ''error''")
    case None
    with obj obtain b where b: "map_of obj ''found'' = Some (JBool b)" by auto
    have "mac_reply sq dump svc mac = cacheable_reply dump obj" using None obj by (simp add: mac_reply_def)
    from mac_store_reply [OF assms this b, of now] None obj(1) show ?thesis
      by (auto simp: mac_query_def json_contains_def)
  next
    case (Some err)
    with assms obj(1) show ?thesis by (simp add: mac_query_def json_contains_def mac_reply_def)
  qed
qed

interpretation mac_steps: cached_service "mac_probe hash" "mac_query sq dump hash" "mac_invar sq dump hash" "mac_reply sq dump"
  for sq dump hash
proof (unfold_locales, goal_cases)
  case (1 svc now k)
  then obtain r c' where "IPCache_get hash now k (mac_cache svc) = Return (r, c')" "cache_ok c'"
    "agrees (cache_content hash c') (mac_reply sq dump svc)" "r = None \<or> r = Some (mac_reply sq dump svc k)"
    using ipc.get_agrees [of "mac_cache svc" hash "mac_reply sq dump svc" now k] by (auto simp: mac_invar_def)
  with 1 show ?case by (auto simp: mac_probe_def mac_invar_def)
next
  case (2 svc now k)
  from mac_query_reply [OF this, of now k] show ?case by simp
qed

lemma MACLookupService_lookup_staged: "MACLookupService_lookup sq dump hash = staged (mac_probe hash) (mac_query sq dump hash)"
  by (intro ext) (simp add: MACLookupService_lookup_def staged_def mac_probe_def Let_def split_def obind_assoc
      cong: option.case_cong)

interpretation mac: lookup_service "MACLookupService_lookup sq dump hash" "mac_invar sq dump hash" "mac_reply sq dump"
  for sq dump hash
  unfolding MACLookupService_lookup_staged by (rule mac_steps.lookup_service_axioms)

section \<open>Properties\<close>

lemma geo_new_invar:
  assumes "IPGeoService_new lib city_path asn_path = (Return svc, evs)"
  shows "geo_invar lib dump hash svc"
  using assms IPCache_new_ok [of 8 DEFAULT_MAX_MEMORY hash]
  by (auto simp: IPGeoService_new_def geo_invar_def agrees_def outcome_simps split: outcome.splits)

lemma mac_new_invar:
  assumes "MACLookupService_new sq path = (Return svc, evs)" and "lookup_stmt (oui_db svc) \<noteq> None"
  shows "mac_invar sq dump hash svc"
proof -
  obtain obj evs' where new: "OUIDatabase_new sq path = (obj, evs')" by (cases "OUIDatabase_new sq path")
  with assms(1) have obj: "obj = Return (oui_db svc)" "IPCache_new (50 * 1024 * 1024) 8 = Return (mac_cache svc)"
    by (auto simp: MACLookupService_new_def outcome_simps)
  with new have "oui_is_open (oui_db svc) \<and> db (oui_db svc) \<noteq> None"
    using OUIDatabase_new_open [of sq path "oui_db svc" evs'] by simp
  moreover have "cache_ok (mac_cache svc) \<and> cache_content hash (mac_cache svc) = Map.empty"
    using IPCache_new_ok [of 8 "50 * 1024 * 1024" hash] obj(2) by auto
  ultimately show ?thesis using assms(2) by (auto simp: mac_invar_def oui_open_def agrees_def)
qed

text \<open>C15: The cache of the geolocation service is transparent: for every sequence of lookups of a freshly
  opened service, at any clock readings, with any hash function and whatever expires or is evicted
  in between, the service completes every lookup and each answer is the one computed from the two
  databases directly. An answer that cannot be serialised carries the serialiser's message as
  \<open>error\<close>, on every repetition.\<close>

theorem geo_cache_transparent:
  assumes "IPGeoService_new lib city_path asn_path = (Return svc, evs)"
  shows "\<exists>svc'. service_run (IPGeoService_lookup lib dump hash) qs svc =
    Return (map (\<lambda>(now, now2, ip). geo_reply lib dump svc ip) qs, svc')"
  using geo.run_answers [OF geo_new_invar [OF assms]] by blast

lemma toy_geo_opened:
  obtains svc where "IPGeoService_new toy_mmdb ''c'' ''a'' = (Return svc, [])"
proof -
  obtain c where "IPCache_new DEFAULT_MAX_MEMORY 8 = Return c"
    using IPCache_new_ok [of 8 DEFAULT_MAX_MEMORY] by auto
  then show thesis
    by (intro that) (simp add: IPGeoService_new_def MaxMindDatabase_new_def toy_mmdb_def)
qed

theorem geo_cache_transparent_witness:
  "\<exists>svc svc'. IPGeoService_new toy_mmdb ''c'' ''a'' = (Return svc, []) \<and>
     service_run (IPGeoService_lookup toy_mmdb (\<lambda>j. Inr ''x'') (\<lambda>k. 0)) [(0, 0, ''8.8.8.8''), (1, 1, ''8.8.8.8'')] svc =
       Return ([geo_reply toy_mmdb (\<lambda>j. Inr ''x'') svc ''8.8.8.8'', geo_reply toy_mmdb (\<lambda>j. Inr ''x'') svc ''8.8.8.8''], svc')"
proof -
  obtain svc where svc: "IPGeoService_new toy_mmdb ''c'' ''a'' = (Return svc, [])" by (rule toy_geo_opened)
  with geo_cache_transparent [OF svc, of "\<lambda>j. Inr ''x''" "\<lambda>k. 0" "[(0, 0, ''8.8.8.8''), (1, 1, ''8.8.8.8'')]"]
  show ?thesis by auto
qed

text \<open>The cache of the MAC service is transparent in the same sense.\<close>

lemma mac_cache_transparent:
  assumes "MACLookupService_new sq path = (Return svc, evs)" and "lookup_stmt (oui_db svc) \<noteq> None"
  shows "\<exists>svc'. service_run (MACLookupService_lookup sq dump hash) qs svc =
    Return (map (\<lambda>(now, now2, m). mac_reply sq dump svc m) qs, svc')"
  using mac.run_answers [OF mac_new_invar [OF assms]] by blast

lemma toy_mac_opened:
  obtains svc where "MACLookupService_new toy_sqlite ''o'' = (Return svc, [])" "lookup_stmt (oui_db svc) \<noteq> None"
proof -
  obtain c where "IPCache_new (50 * 1024 * 1024) 8 = Return c"
    using IPCache_new_ok [of 8 "50 * 1024 * 1024"] by auto
  then show thesis
    by (intro that [of "\<lparr>oui_db = \<lparr>db = Some 1, lookup_stmt = Some 2, oui_is_open = True\<rparr>, mac_cache = c\<rparr>"])
      (simp_all add: MACLookupService_new_def toy_open)
qed

lemma geo_answer_map:
  assumes "CityDatabase_lookup lib (city_db svc) ip = Return (JObj c)"
    and "ASNDatabase_lookup lib (asn_db svc) ip = Return (JObj a)"
  shows "map_of (geo_answer lib svc ip) =
    (case map_of c ''error'' of
       Some err \<Rightarrow> [''ip'' \<mapsto> JStr ip, ''found'' \<mapsto> JBool False, ''error'' \<mapsto> err]
     | None \<Rightarrow> [''ip'' \<mapsto> JStr ip, ''found'' \<mapsto> JBool (is_found c \<or> is_found a)]
         ++ (if is_found c then map_of c else Map.empty)
         ++ (if is_found a then map_of a else Map.empty))"
proof -
  have ok: "obj_ok c" "obj_ok a"
    using city.answers [where lib = lib and this = "city_db svc" and ip = ip]
      asn.answers [where lib = lib and this = "asn_db svc" and ip = ip] assms
    by (simp_all add: ip_answer_object)
  have base: "map_of (obj_of [(''ip'', JStr ip), (''found'', JBool False)]) = [''ip'' \<mapsto> JStr ip, ''found'' \<mapsto> JBool False]"
    by (subst map_of_obj_of) (auto simp: fun_eq_iff)
  show ?thesis
    by (auto simp: geo_answer_def geo_merge_def assms base map_of_update_ok ok Let_def split: option.splits)
qed

text \<open>C33: What a freshly opened geolocation service answers when the answer can be serialised: always an
  object that names the address. If the city
  database reports an error, the answer has that error and nothing of the ASN database. Otherwise
  \<open>found\<close> is true iff one of the databases knows the address, and the members are those of the city
  answer overridden by those of the ASN answer, each only if that database knows the address; an
  error of the ASN database alone is not reported.\<close>

theorem geo_lookup_members:
  assumes "IPGeoService_new lib city_path asn_path = (Return svc, evs)" and "dump (JObj (geo_answer lib svc ip)) = Inr s"
    and "CityDatabase_lookup lib (city_db svc) ip = Return (JObj c)" and "ASNDatabase_lookup lib (asn_db svc) ip = Return (JObj a)"
  shows "\<exists>obj hit svc'. IPGeoService_lookup lib dump hash now now2 ip svc = Return (\<lparr>lr_data = JObj obj, cache_hit = hit\<rparr>, svc') \<and>
    map_of obj =
    (case map_of c ''error'' of
       Some err \<Rightarrow> [''ip'' \<mapsto> JStr ip, ''found'' \<mapsto> JBool False, ''error'' \<mapsto> err]
     | None \<Rightarrow> [''ip'' \<mapsto> JStr ip, ''found'' \<mapsto> JBool (is_found c \<or> is_found a)]
         ++ (if is_found c then map_of c else Map.empty)
         ++ (if is_found a then map_of a else Map.empty))"
proof -
  have reply: "geo_reply lib dump svc ip = JObj (geo_answer lib svc ip)"
    using assms(2) by (simp add: geo_reply_def cacheable_reply_def)
  from geo.lookup_law [OF geo_new_invar [OF assms(1)], of dump hash now now2 ip] reply geo_answer_map [OF assms(3,4)]
  show ?thesis by auto
qed

theorem geo_lookup_members_witness:
  "\<exists>svc obj hit svc'. IPGeoService_new toy_mmdb ''c'' ''a'' = (Return svc, []) \<and>
     IPGeoService_lookup toy_mmdb (\<lambda>j. Inr ''x'') (\<lambda>k. 0) 0 0 ''bad'' svc = Return (\<lparr>lr_data = JObj obj, cache_hit = hit\<rparr>, svc') \<and>
     map_of obj ''error'' = Some (JStr ''Invalid IP address'')"
proof -
  obtain svc where svc: "IPGeoService_new toy_mmdb ''c'' ''a'' = (Return svc, [])" by (rule toy_geo_opened)
  let ?r = "obj_of [(''error'', JStr ''Invalid IP address''), (''ip'', JStr ''bad'')]"
  have "mm_is_open (city_db svc)" "mm_is_open (asn_db svc)"
    using svc by (auto simp: IPGeoService_new_def MaxMindDatabase_new_def toy_mmdb_def outcome_simps)
  then have "CityDatabase_lookup toy_mmdb (city_db svc) ''bad'' = Return (JObj ?r)"
    "ASNDatabase_lookup toy_mmdb (asn_db svc) ''bad'' = Return (JObj ?r)"
    by (simp_all add: CityDatabase_lookup_def ASNDatabase_lookup_def perform_lookup_def toy_mmdb_def
        c_str_def json_contains_def map_of_obj_of)
  from geo_lookup_members [where dump = "\<lambda>j. Inr ''x''", OF svc refl this, of "\<lambda>k. 0" 0 0] svc show ?thesis
    by (auto simp: map_of_obj_of)
qed

definition opened_by :: "mmdb \<Rightarrow> string \<Rightarrow> nat list" where
  "opened_by lib path = (let (status, h) = MMDB_open lib (c_str path) in if status = MMDB_SUCCESS then [h] else [])"

text \<open>A service whose construction fails leaves nothing open: if the city database opens and the ASN
  database does not, the city file is closed again, if the city database fails the ASN database is
  not opened, and a SQLite connection that was opened before a failure is closed.\<close>

lemma services_new_no_leak:
  "(fst (IPGeoService_new lib city_path asn_path) = Throw e1 \<longrightarrow>
      snd (IPGeoService_new lib city_path asn_path) = map MMDB_close (opened_by lib city_path)) \<and>
   (fst (MACLookupService_new sq path) = Throw e2 \<longrightarrow>
      snd (MACLookupService_new sq path) = sqlite3_close (snd (sqlite3_open_v2 sq (c_str path))))"
proof -
  have cache: "IPCache_new m 8 \<noteq> Throw e" for m e by (simp add: IPCache_new_def Let_def)
  show ?thesis
    by (auto simp: IPGeoService_new_def MACLookupService_new_def MaxMindDatabase_new_def opened_by_def
        MaxMindDatabase_destruct_def OUIDatabase_new_def outcome_simps cache Let_def case_prod_beta
        split: outcome.splits if_splits option.splits)
qed

end
