(* ===== verification/Rate_Limiter.thy ===== *)
theory Rate_Limiter
  imports Std_List
begin

text \<open>
  The per-address sliding-window limiter (\<open>class RateLimiter\<close>, \<open>src/rate_limiter.h\<close> and
  \<open>src/rate_limiter.cpp\<close>). Every public method holds the limiter's mutex, so each is one atomic
  function of the state; every reading of \<open>steady_clock\<close> is an argument, in the order the code
  reads it. \<open>is_allowed\<close> reads the clock twice: \<open>now\<close> is what it records, \<open>now2\<close> is what
  \<open>cleanup_old_timestamps\<close> reads afterwards.
\<close>

section \<open>Data\<close>

record IPRecord =
  timestamps :: "time_point list"
  lru_it :: nat

record RateLimiter =
  max_requests :: int
  window :: duration
  max_ip_records :: nat
  ip_records :: "(string \<times> IPRecord) list"
  lru_list :: "string std_list"

section \<open>Operations\<close>

definition RateLimiter_new :: "int \<Rightarrow> duration \<Rightarrow> nat \<Rightarrow> RateLimiter" where
  "RateLimiter_new mr w mi =
     \<lparr>max_requests = mr, window = w, max_ip_records = mi, ip_records = [], lru_list = list_empty\<rparr>"

definition cleanup_old_timestamps :: "duration \<Rightarrow> time_point \<Rightarrow> IPRecord \<Rightarrow> IPRecord" where
  "cleanup_old_timestamps w now rec =
     rec\<lparr>timestamps := dropWhile (\<lambda>front. now - front > w) (timestamps rec)\<rparr>"

definition evict_lru :: "RateLimiter \<Rightarrow> RateLimiter outcome" where
  "evict_lru s =
     (case list_back (lru_list s) of
        None \<Rightarrow> Return s
      | Some lru_ip \<Rightarrow>
          (case pop_back (lru_list s) of
             None \<Rightarrow> Undefined
           | Some l \<Rightarrow> Return (s\<lparr>ip_records := AList.delete lru_ip (ip_records s), lru_list := l\<rparr>)))"

definition is_allowed :: "time_point \<Rightarrow> time_point \<Rightarrow> string \<Rightarrow> RateLimiter \<Rightarrow> (bool \<times> RateLimiter) outcome" where
  "is_allowed now now2 ip_address s =
     (if max_requests s \<le> 0 then Return (False, s)
      else case map_of (ip_records s) ip_address of
        None \<Rightarrow>
          obind (if length (ip_records s) \<ge> max_ip_records s then evict_lru s else Return s) (\<lambda>s.
            let l = push_front ip_address (lru_list s);
                rec = \<lparr>timestamps = [now], lru_it = list_begin l\<rparr>
            in Return (True, s\<lparr>lru_list := l, ip_records := (ip_address, rec) # ip_records s\<rparr>))
      | Some rec \<Rightarrow>
          (case splice_front (lru_it rec) (lru_list s) of
             None \<Rightarrow> Undefined
           | Some l \<Rightarrow>
               (let rec = cleanup_old_timestamps (window s) now2 rec in
                if length (timestamps rec) < nat (max_requests s)
                then Return (True, s\<lparr>lru_list := l, ip_records :=
                       AList.update ip_address (rec\<lparr>timestamps := timestamps rec @ [now]\<rparr>) (ip_records s)\<rparr>)
                else Return (False, s\<lparr>lru_list := l, ip_records :=
                       AList.update ip_address rec (ip_records s)\<rparr>))))"

definition get_remaining :: "time_point \<Rightarrow> string \<Rightarrow> RateLimiter \<Rightarrow> int \<times> RateLimiter" where
  "get_remaining now ip_address s =
     (case map_of (ip_records s) ip_address of
        None \<Rightarrow> (max_requests s, s)
      | Some rec \<Rightarrow>
          (let rec = cleanup_old_timestamps (window s) now rec in
           (max 0 (max_requests s - cast_int (int (length (timestamps rec)))),
            s\<lparr>ip_records := AList.update ip_address rec (ip_records s)\<rparr>)))"

fun erase_idle :: "(string \<times> IPRecord) list \<Rightarrow> string std_list \<Rightarrow>
    ((string \<times> IPRecord) list \<times> string std_list) outcome" where
  "erase_idle [] l = Return ([], l)"
| "erase_idle ((ip, rec) # recs) l =
     (if timestamps rec = []
      then (case list_erase (lru_it rec) l of None \<Rightarrow> Undefined | Some l' \<Rightarrow> erase_idle recs l')
      else obind (erase_idle recs l) (\<lambda>(kept, l'). Return ((ip, rec) # kept, l')))"

text \<open>The first loop of \<open>cleanup\<close>; \<open>clk i\<close> is the reading made for the \<open>i\<close>-th record.\<close>

fun cleanup_all :: "duration \<Rightarrow> (nat \<Rightarrow> time_point) \<Rightarrow> nat \<Rightarrow> (string \<times> IPRecord) list \<Rightarrow>
    (string \<times> IPRecord) list" where
  "cleanup_all w clk i [] = []"
| "cleanup_all w clk i ((ip, rec) # recs) =
     (ip, cleanup_old_timestamps w (clk i) rec) # cleanup_all w clk (Suc i) recs"

definition cleanup :: "(nat \<Rightarrow> time_point) \<Rightarrow> RateLimiter \<Rightarrow> RateLimiter outcome" where
  "cleanup clk s =
     obind (erase_idle (cleanup_all (window s) clk 0 (ip_records s)) (lru_list s)) (\<lambda>(recs, l). Return (s\<lparr>ip_records := recs, lru_list := l\<rparr>))"

section \<open>Structural invariant\<close>

text \<open>
  Map and LRU list agree; the table holds at most \<open>max_ip_records\<close> records (one, if that is 0);
  every record holds a sorted deque of at most \<open>max_requests\<close> readings,
  none later than the clock.
\<close>

definition record_ok :: "int \<Rightarrow> time_point \<Rightarrow> IPRecord \<Rightarrow> bool" where
  "record_ok mr t rec \<longleftrightarrow> sorted (timestamps rec) \<and> (\<forall>u\<in>set (timestamps rec). u \<le> t) \<and>
     int (length (timestamps rec)) \<le> mr"

definition limiter_ok :: "time_point \<Rightarrow> RateLimiter \<Rightarrow> bool" where
  "limiter_ok t s \<longleftrightarrow> linked lru_it (ip_records s) (lru_list s) \<and>
     length (ip_records s) \<le> max 1 (max_ip_records s) \<and>
     (\<forall>ip rec. map_of (ip_records s) ip = Some rec \<longrightarrow> record_ok (max_requests s) t rec)"

lemma lru_it_cleanup [simp]: "lru_it (cleanup_old_timestamps w now rec) = lru_it rec"
  by (simp add: cleanup_old_timestamps_def)

lemma timestamps_cleanup:
  "sorted (timestamps rec) \<Longrightarrow>
     timestamps (cleanup_old_timestamps w now rec) = filter (\<lambda>u. now - u \<le> w) (timestamps rec)"
  using dropWhile_sorted_filter [of "timestamps rec" "\<lambda>front. now - front > w"]
  by (simp add: cleanup_old_timestamps_def not_less)

lemma record_ok_cleanup: "record_ok mr t rec \<Longrightarrow> t \<le> t' \<Longrightarrow> record_ok mr t' (cleanup_old_timestamps w now rec)"
  by (auto simp: record_ok_def timestamps_cleanup sorted_wrt_filter
      intro: order_trans [OF of_nat_mono [OF length_filter_le]])

lemma record_ok_mono: "record_ok mr t rec \<Longrightarrow> t \<le> t' \<Longrightarrow> record_ok mr t' rec"
  by (fastforce simp: record_ok_def)

lemma limiter_ok_linked: "limiter_ok t s \<Longrightarrow> linked lru_it (ip_records s) (lru_list s)"
  by (simp add: limiter_ok_def)

lemma limiter_ok_new [inv_intros]: "limiter_ok t (RateLimiter_new mr w mi)"
  by (simp add: limiter_ok_def RateLimiter_new_def linked_empty)

text \<open>Evicting the least recently used record.\<close>

lemma evict_lru_ok:
  assumes ok: "limiter_ok t s"
  shows "\<exists>s'. evict_lru s = Return s' \<and> limiter_ok t s' \<and>
     max_requests s' = max_requests s \<and> window s' = window s \<and> max_ip_records s' = max_ip_records s \<and>
     map_of (ip_records s') \<subseteq>\<^sub>m map_of (ip_records s) \<and>
     length (ip_records s') = length (ip_records s) - 1"
proof (cases "nodes (lru_list s) = []")
  case True
  then have "ip_records s = []" using linked_empty_iff [OF limiter_ok_linked [OF ok]] by simp
  with True ok show ?thesis by (simp add: evict_lru_def list_back_def)
next
  case False
  note l = limiter_ok_linked [OF ok]
  obtain k e where k: "list_back (lru_list s) = Some k" "k = last (list_values (lru_list s))"
    and e: "map_of (ip_records s) k = Some e" "lru_it e = fst (last (nodes (lru_list s)))"
    using linked_back [OF l False] by blast
  obtain l' where l': "list_erase (lru_it e) (lru_list s) = Some l'"
    "linked lru_it (AList.delete k (ip_records s)) l'" using linked_erase [OF l e(1)] by blast
  have pop: "pop_back (lru_list s) = Some l'"
    using l'(1) False alist_delete_last [OF linked_ids_distinct [OF l] False]
    by (auto simp: pop_back_def list_erase_def e(2))
  let ?s = "s\<lparr>ip_records := AList.delete k (ip_records s), lru_list := l'\<rparr>"
  have "evict_lru s = Return ?s" using k(1) pop by (simp add: evict_lru_def)
  moreover have "limiter_ok t ?s"
    using ok l'(2) by (auto simp: limiter_ok_def AList.delete_conv'
        intro: order_trans [OF AList.length_delete_le] split: if_splits)
  moreover have "length (AList.delete k (ip_records s)) = length (ip_records s) - 1"
    using length_delete_mem [OF linked_distinct [OF l] map_of_fst_mem [OF e(1)]] .
  ultimately show ?thesis
    by (auto simp: map_le_Some_iff AList.delete_conv' split: if_splits)
qed

lemma limiter_ok_mono: "limiter_ok t s \<Longrightarrow> t \<le> t' \<Longrightarrow> limiter_ok t' s"
  unfolding limiter_ok_def by (blast intro: record_ok_mono)

lemma limiter_ok_record:
  "limiter_ok t s \<Longrightarrow> map_of (ip_records s) ip = Some rec \<Longrightarrow> record_ok (max_requests s) t rec"
  by (simp add: limiter_ok_def)

lemma limiter_ok_put:
  assumes ok: "limiter_ok t s" and rec: "map_of (ip_records s) ip = Some rec"
    and l: "linked lru_it (ip_records s) l" and rec': "record_ok (max_requests s) t' rec'"
    and it: "lru_it rec' = lru_it rec" and t: "t \<le> t'"
  shows "limiter_ok t' (s\<lparr>lru_list := l, ip_records := AList.update ip rec' (ip_records s)\<rparr>)"
  using linked_update [OF l rec it] limiter_ok_mono [OF ok t] rec'
    length_update_mem [OF map_of_fst_mem [OF rec]]
  by (auto simp: limiter_ok_def AList.update_conv' split: if_splits)

text \<open>A known address: the record moves to the front, is cleaned, and grows if there is room.\<close>

lemma is_allowed_known:
  assumes ok: "limiter_ok t s" and rec: "map_of (ip_records s) ip = Some rec"
    and m: "0 < max_requests s" and t: "t \<le> now" "now \<le> now2"
  defines "rec' \<equiv> cleanup_old_timestamps (window s) now2 rec"
  defines "b \<equiv> length (timestamps rec') < nat (max_requests s)"
  defines "rec'' \<equiv> (if b then rec'\<lparr>timestamps := timestamps rec' @ [now]\<rparr> else rec')"
  shows "\<exists>l. is_allowed now now2 ip s =
       Return (b, s\<lparr>lru_list := l, ip_records := AList.update ip rec'' (ip_records s)\<rparr>) \<and>
     limiter_ok now2 (s\<lparr>lru_list := l, ip_records := AList.update ip rec'' (ip_records s)\<rparr>)"
proof -
  obtain l where l: "splice_front (lru_it rec) (lru_list s) = Some l" "linked lru_it (ip_records s) l"
    using linked_splice [OF limiter_ok_linked [OF ok] rec] by blast
  note ro = limiter_ok_record [OF ok rec]
  have ro': "record_ok (max_requests s) now rec'"
    unfolding rec'_def using ro t(1) by (rule record_ok_cleanup)
  then have "record_ok (max_requests s) now rec''"
    unfolding rec''_def b_def by (auto simp: record_ok_def sorted_append split: if_splits)
  then have "record_ok (max_requests s) now2 rec''" using t(2) by (rule record_ok_mono)
  moreover have "lru_it rec'' = lru_it rec" by (simp add: rec''_def rec'_def)
  ultimately have "limiter_ok now2 (s\<lparr>lru_list := l, ip_records := AList.update ip rec'' (ip_records s)\<rparr>)"
    using limiter_ok_put [OF ok rec l(2)] t by simp
  then show ?thesis
    using l(1) rec m by (auto simp: is_allowed_def rec''_def b_def rec'_def Let_def)
qed

text \<open>A new address: one record is evicted if the table is full, then the address is admitted.\<close>

lemma make_room:
  assumes ok: "limiter_ok t s"
  shows "\<exists>s1. (if length (ip_records s) \<ge> max_ip_records s then evict_lru s else Return s) = Return s1 \<and>
     limiter_ok t s1 \<and> max_requests s1 = max_requests s \<and> window s1 = window s \<and>
     max_ip_records s1 = max_ip_records s \<and> map_of (ip_records s1) \<subseteq>\<^sub>m map_of (ip_records s) \<and>
     length (ip_records s1) < max 1 (max_ip_records s) \<and>
     (length (ip_records s) < max_ip_records s \<longrightarrow> s1 = s)"
proof (cases "length (ip_records s) \<ge> max_ip_records s")
  case True
  moreover have "length (ip_records s) \<le> max 1 (max_ip_records s)"
    using ok by (simp add: limiter_ok_def)
  ultimately show ?thesis using evict_lru_ok [OF ok] by fastforce
next
  case False
  with ok show ?thesis by auto
qed

lemma is_allowed_new:
  assumes ok: "limiter_ok t s" and new: "map_of (ip_records s) ip = None"
    and m: "0 < max_requests s" and t: "t \<le> now" "now \<le> now2"
  shows "\<exists>s1 s' rec. is_allowed now now2 ip s = Return (True, s') \<and> limiter_ok now2 s' \<and>
     timestamps rec = [now] \<and> ip_records s' = (ip, rec) # ip_records s1 \<and>
     map_of (ip_records s1) \<subseteq>\<^sub>m map_of (ip_records s) \<and>
     (length (ip_records s) < max_ip_records s \<longrightarrow> s1 = s) \<and>
     max_requests s' = max_requests s \<and> window s' = window s \<and> max_ip_records s' = max_ip_records s"
proof -
  obtain s1 where s1: "(if length (ip_records s) \<ge> max_ip_records s then evict_lru s else Return s) = Return s1"
    "limiter_ok t s1" "max_requests s1 = max_requests s" "window s1 = window s"
    "max_ip_records s1 = max_ip_records s" "map_of (ip_records s1) \<subseteq>\<^sub>m map_of (ip_records s)"
    "length (ip_records s1) < max 1 (max_ip_records s)"
    "length (ip_records s) < max_ip_records s \<longrightarrow> s1 = s"
    using make_room [OF ok] by blast
  let ?l = "push_front ip (lru_list s1)"
  let ?rec = "\<lparr>timestamps = [now], lru_it = list_begin ?l\<rparr>"
  let ?s = "s1\<lparr>lru_list := ?l, ip_records := (ip, ?rec) # ip_records s1\<rparr>"
  have "map_of (ip_records s1) ip = None"
    using s1(6) new unfolding map_le_Some_iff by (cases "map_of (ip_records s1) ip") auto
  then have fresh: "ip \<notin> fst ` set (ip_records s1)" by (simp add: map_of_eq_None_iff)
  have lk: "linked lru_it ((ip, ?rec) # ip_records s1) ?l"
    using linked_push [OF limiter_ok_linked [OF s1(2)] fresh, of ?rec] by simp
  have "record_ok (max_requests s) now2 ?rec" using m t by (simp add: record_ok_def)
  then have "limiter_ok now2 ?s"
    using lk limiter_ok_mono [OF s1(2), of now2] t s1(3,5,7) by (auto simp: limiter_ok_def)
  moreover have "is_allowed now now2 ip s = Return (True, ?s)"
    using m new s1(1) by (simp add: is_allowed_def Let_def)
  ultimately show ?thesis using s1(3-6,8)
    by (intro exI [of _ s1] exI [of _ ?s] exI [of _ ?rec]) simp
qed

lemma is_allowed_ok [inv_intros]:
  assumes ok: "limiter_ok t s" and t: "t \<le> now" "now \<le> now2"
  shows "\<exists>b s'. is_allowed now now2 ip s = Return (b, s') \<and> limiter_ok now2 s' \<and>
     max_requests s' = max_requests s \<and> window s' = window s \<and> max_ip_records s' = max_ip_records s"
proof (cases "max_requests s \<le> 0")
  case True
  with ok t show ?thesis by (auto simp: is_allowed_def intro: limiter_ok_mono)
next
  case False
  then have m: "0 < max_requests s" by simp
  show ?thesis
  proof (cases "map_of (ip_records s) ip")
    case None
    from is_allowed_new [OF ok None m t] show ?thesis by blast
  next
    case (Some rec)
    from is_allowed_known [OF ok Some m t] show ?thesis by fastforce
  qed
qed

lemma get_remaining_ok [inv_intros]:
  assumes ok: "limiter_ok t s" and t: "t \<le> now"
  shows "limiter_ok now (snd (get_remaining now ip s)) \<and>
     max_requests (snd (get_remaining now ip s)) = max_requests s \<and>
     window (snd (get_remaining now ip s)) = window s \<and>
     max_ip_records (snd (get_remaining now ip s)) = max_ip_records s"
proof (cases "map_of (ip_records s) ip")
  case None
  with limiter_ok_mono [OF ok t] show ?thesis by (simp add: get_remaining_def)
next
  case (Some rec)
  have "limiter_ok now (s\<lparr>lru_list := lru_list s, ip_records :=
      AList.update ip (cleanup_old_timestamps (window s) now rec) (ip_records s)\<rparr>)"
    by (rule limiter_ok_put [OF ok Some limiter_ok_linked [OF ok]])
      (auto intro: record_ok_cleanup [OF limiter_ok_record [OF ok Some]] t)
  with Some show ?thesis by (simp add: get_remaining_def Let_def)
qed

lemma cleanup_all_keys [simp]: "map fst (cleanup_all w clk i recs) = map fst recs"
  by (induction w clk i recs rule: cleanup_all.induct) auto

lemma cleanup_all_cong:
  "(\<And>j. j < i + length recs \<Longrightarrow> clk j = clk' j) \<Longrightarrow> cleanup_all w clk i recs = cleanup_all w clk' i recs"
  by (induction w clk i recs rule: cleanup_all.induct) auto

lemma cleanup_cong: "(\<And>j. j < length (ip_records s) \<Longrightarrow> clk j = clk' j) \<Longrightarrow> cleanup clk s = cleanup clk' s"
  using cleanup_all_cong [of 0 "ip_records s" clk clk'] by (simp add: cleanup_def)

lemma cleanup_all_lookup:
  "map_of (cleanup_all w clk i recs) ip = Some rec' \<Longrightarrow>
     \<exists>rec j. map_of recs ip = Some rec \<and> rec' = cleanup_old_timestamps w (clk j) rec"
  by (induction w clk i recs rule: cleanup_all.induct) (auto split: if_splits)

lemma cleanup_all_known:
  "map_of recs ip = Some rec \<Longrightarrow>
     \<exists>j. map_of (cleanup_all w clk i recs) ip = Some (cleanup_old_timestamps w (clk j) rec)"
  by (induction w clk i recs rule: cleanup_all.induct) auto

text \<open>The second loop keeps exactly the records that still hold a reading, and never loses track
  of the list.\<close>

lemma erase_idle_filter:
  assumes "linked lru_it (kept @ recs) l"
  shows "\<exists>l'. erase_idle recs l = Return (filter (\<lambda>(ip, rec). timestamps rec \<noteq> []) recs, l') \<and>
     linked lru_it (kept @ filter (\<lambda>(ip, rec). timestamps rec \<noteq> []) recs) l'"
  using assms
proof (induction recs arbitrary: kept l)
  case Nil
  then show ?case by simp
next
  case (Cons p recs)
  obtain ip rec where p: "p = (ip, rec)" by (cases p)
  have d: "distinct (map fst (kept @ (ip, rec) # recs))"
    using linked_distinct [OF Cons.prems] p by simp
  show ?case
  proof (cases "timestamps rec = []")
    case True
    have look: "map_of (kept @ (ip, rec) # recs) ip = Some rec"
      unfolding map_of_eq_Some_iff [OF d] by simp
    have del: "AList.delete ip (kept @ (ip, rec) # recs) = kept @ recs"
      using d by (simp add: delete_append)
    obtain l1 where "list_erase (lru_it rec) l = Some l1" "linked lru_it (kept @ recs) l1"
      using linked_erase [OF Cons.prems [unfolded p] look] unfolding del by blast
    with Cons.IH [of kept l1] True p show ?thesis by simp
  next
    case False
    have "linked lru_it ((kept @ [(ip, rec)]) @ recs) l" using Cons.prems p by simp
    from Cons.IH [OF this] False p show ?thesis by auto
  qed
qed

lemma map_of_filter_Some:
  "distinct (map fst m) \<Longrightarrow>
     map_of (filter P m) k = (case map_of m k of Some v \<Rightarrow> if P (k, v) then Some v else None | None \<Rightarrow> None)"
  by (induction m) (auto split: option.splits if_splits simp: map_of_eq_None_iff intro: rev_image_eqI)

text \<open>What \<open>cleanup\<close> does to one slot of the table.\<close>

fun cleaned :: "duration \<Rightarrow> (nat \<Rightarrow> time_point) \<Rightarrow> IPRecord option \<Rightarrow> IPRecord option \<Rightarrow> bool" where
  "cleaned w clk None slot \<longleftrightarrow> slot = None"
| "cleaned w clk (Some rec) slot \<longleftrightarrow> (\<exists>i. let rec' = cleanup_old_timestamps w (clk i) rec in
     slot = (if timestamps rec' = [] then None else Some rec'))"

lemma cleanup_spec:
  assumes ok: "limiter_ok t s" and clk: "\<And>i. t \<le> clk i \<and> clk i \<le> t'"
  shows "\<exists>s'. cleanup clk s = Return s' \<and> limiter_ok t' s' \<and>
     max_requests s' = max_requests s \<and> window s' = window s \<and> max_ip_records s' = max_ip_records s \<and>
     (\<forall>ip. cleaned (window s) clk (map_of (ip_records s) ip) (map_of (ip_records s') ip))"
proof -
  let ?m = "cleanup_all (window s) clk 0 (ip_records s)"
  let ?f = "filter (\<lambda>(ip, rec). timestamps rec \<noteq> []) ?m"
  note l = limiter_ok_linked [OF ok]
  have lm: "linked lru_it ?m (lru_list s)"
    using l cleanup_all_keys by (rule linked_transfer) (auto dest!: cleanup_all_lookup)
  then obtain l' where l': "erase_idle ?m (lru_list s) = Return (?f, l')" "linked lru_it ?f l'"
    using erase_idle_filter [of "[]" ?m] by auto
  let ?s = "s\<lparr>ip_records := ?f, lru_list := l'\<rparr>"
  have d: "distinct (map fst ?m)" using linked_distinct [OF lm] .
  have look: "cleaned (window s) clk (map_of (ip_records s) ip) (map_of ?f ip)" for ip
  proof (cases "map_of (ip_records s) ip")
    case None
    then have "map_of ?m ip = None" using cleanup_all_lookup [of "window s" clk 0 "ip_records s" ip] by fastforce
    with None d show ?thesis by (simp add: map_of_filter_Some)
  next
    case (Some rec)
    from cleanup_all_known [OF this] obtain j
      where "map_of ?m ip = Some (cleanup_old_timestamps (window s) (clk j) rec)" by blast
    with Some d show ?thesis by (auto simp: map_of_filter_Some Let_def intro!: exI [of _ j])
  qed
  have "record_ok (max_requests s) t' rec'" if "map_of ?f ip = Some rec'" for ip rec'
  proof -
    from that d have "map_of ?m ip = Some rec'" by (simp add: map_of_filter_Some split: option.splits if_splits)
    then obtain rec j where r: "map_of (ip_records s) ip = Some rec"
      "rec' = cleanup_old_timestamps (window s) (clk j) rec" using cleanup_all_lookup by blast
    have "t \<le> t'" using clk by (meson order_trans)
    with record_ok_cleanup [OF limiter_ok_record [OF ok r(1)]] r(2) show ?thesis by simp
  qed
  moreover have "length ?f \<le> length (ip_records s)"
    using length_filter_le [of "\<lambda>(ip, rec). timestamps rec \<noteq> []" ?m] cleanup_all_keys
    by (metis length_map)
  ultimately have "limiter_ok t' ?s"
    using l'(2) ok by (auto simp: limiter_ok_def)
  then show ?thesis using l'(1) look by (intro exI [of _ ?s]) (simp add: cleanup_def)
qed

section \<open>The sliding window\<close>

text \<open>
  \<open>G ip\<close> is the list of readings at which requests of \<open>ip\<close> were admitted so far. A record holds
  the tail of that list; what it no longer holds is out of the window at the clock \<open>t\<close>.
\<close>

definition recent :: "duration \<Rightarrow> time_point \<Rightarrow> time_point list \<Rightarrow> time_point list" where
  "recent w t us = filter (\<lambda>u. t - u \<le> w) us"

fun window_at :: "duration \<Rightarrow> time_point \<Rightarrow> time_point list \<Rightarrow> IPRecord option \<Rightarrow> bool" where
  "window_at w t us None \<longleftrightarrow> (\<forall>u\<in>set us. t - u > w)"
| "window_at w t us (Some rec) \<longleftrightarrow> (\<exists>old. us = old @ timestamps rec \<and> (\<forall>u\<in>set old. t - u > w))"

definition window_inv :: "(string \<Rightarrow> time_point list) \<Rightarrow> time_point \<Rightarrow> RateLimiter \<Rightarrow> bool" where
  "window_inv G t s \<longleftrightarrow> (\<forall>ip. window_at (window s) t (G ip) (map_of (ip_records s) ip))"

lemma recent_append: "recent w t (us @ vs) = recent w t us @ recent w t vs"
  by (simp add: recent_def)

lemma recent_expired: "\<forall>u\<in>set us. t - u > w \<Longrightarrow> t \<le> t' \<Longrightarrow> recent w t' us = []"
  by (fastforce simp: recent_def filter_empty_conv)

lemma window_inv_None:
  "window_inv G t s \<Longrightarrow> map_of (ip_records s) ip = None \<Longrightarrow> t \<le> t' \<Longrightarrow>
     recent (window s) t' (G ip) = []"
  unfolding window_inv_def by (metis window_at.simps(1) recent_expired)

lemma window_inv_Some:
  assumes "window_inv G t s" and "map_of (ip_records s) ip = Some rec" and "t \<le> t'"
  shows "recent (window s) t' (G ip) = recent (window s) t' (timestamps rec)"
proof -
  from assms obtain old where "G ip = old @ timestamps rec" "\<forall>u\<in>set old. t - u > window s"
    unfolding window_inv_def by (metis window_at.simps(2))
  with recent_expired [OF this(2) assms(3)] show ?thesis by (simp add: recent_append)
qed

lemma cleanup_timestamps_recent:
  assumes "limiter_ok t s" and "window_inv G t s" and "map_of (ip_records s) ip = Some rec" and "t \<le> t'"
  shows "timestamps (cleanup_old_timestamps (window s) t' rec) = recent (window s) t' (G ip)"
  using window_inv_Some [OF assms(2-4)] limiter_ok_record [OF assms(1,3)]
  by (simp add: timestamps_cleanup recent_def record_ok_def)

text \<open>Cleaning a record moves expired readings to the part it no longer holds.\<close>

lemma window_at_cleanup:
  assumes "window_at w t us (Some rec)" and "t \<le> t'"
  shows "window_at w t' us (Some (cleanup_old_timestamps w t' rec))"
proof -
  from assms(1) obtain old where o: "us = old @ timestamps rec" "\<forall>u\<in>set old. t - u > w" by auto
  let ?P = "\<lambda>front. t' - front > w"
  have "us = (old @ takeWhile ?P (timestamps rec)) @ dropWhile ?P (timestamps rec)"
    using o(1) by simp
  moreover have "\<forall>u\<in>set (old @ takeWhile ?P (timestamps rec)). t' - u > w"
    using o(2) assms(2) by (fastforce dest: set_takeWhileD)
  ultimately show ?thesis unfolding window_at.simps
    by (intro exI [of _ "old @ takeWhile ?P (timestamps rec)"]) (simp add: cleanup_old_timestamps_def)
qed

lemma window_inv_new: "window_inv (\<lambda>_. []) t (RateLimiter_new mr w mi)"
  by (simp add: window_inv_def RateLimiter_new_def)

lemma window_at_mono: "window_at w t us slot \<Longrightarrow> t \<le> t' \<Longrightarrow> window_at w t' us slot"
  by (cases slot) fastforce+

lemma window_inv_mono: "window_inv G t s \<Longrightarrow> t \<le> t' \<Longrightarrow> window_inv G t' s"
  unfolding window_inv_def by (blast intro: window_at_mono)

lemma window_inv_put:
  assumes "window_inv G t s" and "window_at (window s) t us (Some rec)"
    and "window s' = window s" and "map_of (ip_records s') = (map_of (ip_records s))(ip \<mapsto> rec)"
  shows "window_inv (G(ip := us)) t s'"
  using assms by (simp add: window_inv_def)

text \<open>
  One request: while the table has room (or the address is known), the answer is exactly whether
  fewer than \<open>max_requests\<close> admissions lie in the window that ends at the second clock reading.
\<close>

lemma is_allowed_window:
  assumes ok: "limiter_ok t s" and w: "window_inv G t s" and t: "t \<le> now" "now \<le> now2"
    and room: "map_of (ip_records s) ip \<noteq> None \<or> length (ip_records s) < max_ip_records s"
  shows "\<exists>b s'. is_allowed now now2 ip s = Return (b, s') \<and>
     b = (int (length (recent (window s) now2 (G ip))) < max_requests s) \<and>
     limiter_ok now2 s' \<and> window_inv (if b then G(ip := G ip @ [now]) else G) now2 s' \<and>
     max_requests s' = max_requests s \<and> window s' = window s \<and> max_ip_records s' = max_ip_records s \<and>
     fst ` set (ip_records s') \<subseteq> insert ip (fst ` set (ip_records s))"
proof (cases "max_requests s \<le> 0")
  case True
  with ok w t limiter_ok_mono [OF ok, of now2] window_inv_mono [OF w, of now2] show ?thesis
    by (auto simp: is_allowed_def)
next
  case False
  then have m: "0 < max_requests s" by simp
  have t2: "t \<le> now2" using t by simp
  show ?thesis
  proof (cases "map_of (ip_records s) ip")
    case None
    with room have "length (ip_records s) < max_ip_records s" by simp
    with is_allowed_new [OF ok None m t] obtain s' rec where s': "is_allowed now now2 ip s = Return (True, s')"
      "limiter_ok now2 s'" "timestamps rec = [now]" "ip_records s' = (ip, rec) # ip_records s"
      "max_requests s' = max_requests s" "window s' = window s" "max_ip_records s' = max_ip_records s"
      by blast
    have "window_inv (G(ip := G ip @ [now])) now2 s'"
    proof (rule window_inv_put [OF window_inv_mono [OF w t2] _ s'(6)])
      have "window_at (window s) now2 (G ip) None"
        using window_inv_mono [OF w t2] None unfolding window_inv_def by metis
      then show "window_at (window s) now2 (G ip @ [now]) (Some rec)" using s'(3) by simp
    qed (simp add: s'(4) fun_upd_def)
    with s' window_inv_None [OF w None t2] m show ?thesis by auto
  next
    case (Some rec)
    let ?rec = "cleanup_old_timestamps (window s) now2 rec"
    let ?b = "length (timestamps ?rec) < nat (max_requests s)"
    let ?rec2 = "if ?b then ?rec\<lparr>timestamps := timestamps ?rec @ [now]\<rparr> else ?rec"
    obtain l where l: "is_allowed now now2 ip s =
        Return (?b, s\<lparr>lru_list := l, ip_records := AList.update ip ?rec2 (ip_records s)\<rparr>)"
      "limiter_ok now2 (s\<lparr>lru_list := l, ip_records := AList.update ip ?rec2 (ip_records s)\<rparr>)"
      using is_allowed_known [OF ok Some m t] by blast
    let ?s = "s\<lparr>lru_list := l, ip_records := AList.update ip ?rec2 (ip_records s)\<rparr>"
    let ?G = "if ?b then G(ip := G ip @ [now]) else G"
    have "window_at (window s) t (G ip) (Some rec)" using w Some unfolding window_inv_def by metis
    then obtain old where old: "G ip = old @ timestamps ?rec" "\<forall>u\<in>set old. now2 - u > window s"
      using window_at_cleanup [OF _ t2] by (metis window_at.simps(2))
    have "window_inv (G(ip := if ?b then G ip @ [now] else G ip)) now2 ?s"
      by (rule window_inv_put [OF window_inv_mono [OF w t2], of _ ?rec2])
        (use old in \<open>auto simp: AList.update_conv'\<close>)
    then have "window_inv ?G now2 ?s" by (simp split: if_splits)
    moreover have "?b = (int (length (recent (window s) now2 (G ip))) < max_requests s)"
      using cleanup_timestamps_recent [OF ok w Some t2] m by auto
    moreover have "fst ` set (ip_records ?s) \<subseteq> insert ip (fst ` set (ip_records s))"
      by (simp add: dom_update)
    ultimately show ?thesis using l
      by (intro exI [of _ ?b] exI [of _ ?s]) simp
  qed
qed

lemma window_at_cleaned:
  assumes "window_at w t us slot" and "cleaned w clk slot slot'" and clk: "\<And>i. t \<le> clk i \<and> clk i \<le> t'"
  shows "window_at w t' us slot'"
proof (cases slot)
  case None
  moreover have "t \<le> t'" using clk by (meson order_trans)
  ultimately show ?thesis using assms(1,2) window_at_mono by fastforce
next
  case (Some rec)
  with assms(2) obtain i where i: "slot' = (let rec' = cleanup_old_timestamps w (clk i) rec in
      if timestamps rec' = [] then None else Some rec')" by (auto simp: Let_def)
  have "window_at w (clk i) us (Some (cleanup_old_timestamps w (clk i) rec))"
    using window_at_cleanup assms(1) Some clk by blast
  then have "window_at w t' us (Some (cleanup_old_timestamps w (clk i) rec))"
    using window_at_mono clk by blast
  with i show ?thesis by (auto simp: Let_def)
qed

lemma cleanup_window:
  assumes "window_inv G t s" and "\<And>ip. cleaned (window s) clk (map_of (ip_records s) ip) (map_of (ip_records s') ip)"
    and "window s' = window s" and "\<And>i. t \<le> clk i \<and> clk i \<le> t'"
  shows "window_inv G t' s'"
  using assms window_at_cleaned unfolding window_inv_def by metis

lemma get_remaining_window:
  assumes w: "window_inv G t s" and t: "t \<le> now"
  shows "window_inv G now (snd (get_remaining now ip s))"
proof (cases "map_of (ip_records s) ip")
  case None
  with window_inv_mono [OF w t] show ?thesis by (simp add: get_remaining_def)
next
  case (Some rec)
  then have "window_at (window s) t (G ip) (Some rec)" using w unfolding window_inv_def by metis
  then have "window_at (window s) now (G ip) (Some (cleanup_old_timestamps (window s) now rec))"
    using t by (rule window_at_cleanup)
  with window_inv_put [OF window_inv_mono [OF w t] this, of _ ip] Some show ?thesis
    by (simp add: get_remaining_def Let_def AList.update_conv')
qed

text \<open>\<open>get_remaining\<close> is the room left in the window.\<close>

lemma get_remaining_value:
  assumes ok: "limiter_ok t s" and w: "window_inv G t s" and t: "t \<le> now"
    and m: "0 \<le> max_requests s" "max_requests s < 2 ^ 31"
  shows "fst (get_remaining now ip s) = max_requests s - int (length (recent (window s) now (G ip)))"
proof (cases "map_of (ip_records s) ip")
  case None
  with window_inv_None [OF w None t] show ?thesis by (simp add: get_remaining_def)
next
  case (Some rec)
  note ts = cleanup_timestamps_recent [OF ok w Some t]
  have "int (length (recent (window s) now (G ip))) \<le> max_requests s"
    using record_ok_cleanup [OF limiter_ok_record [OF ok Some] t, of "window s" now] ts
    by (simp add: record_ok_def)
  moreover from this m(2) have "cast_int (int (length (recent (window s) now (G ip)))) =
      int (length (recent (window s) now (G ip)))"
    by (simp add: cast_int_def signed_take_bit_int_eq_self)
  ultimately show ?thesis using Some ts by (simp add: get_remaining_def Let_def)
qed

section \<open>Runs of the limiter\<close>

text \<open>
  A run from a new limiter: any sequence of calls whose clock readings do not go back. \<open>G\<close> collects
  the admissions of every address, \<open>S\<close> the addresses seen, \<open>t\<close> the last reading.
\<close>

inductive limiter_run :: "int \<Rightarrow> duration \<Rightarrow> nat \<Rightarrow> RateLimiter \<Rightarrow> (string \<Rightarrow> time_point list) \<Rightarrow>
    string set \<Rightarrow> time_point \<Rightarrow> bool"
  for mr :: int and w :: duration and mi :: nat where
  start: "limiter_run mr w mi (RateLimiter_new mr w mi) (\<lambda>_. []) {} t"
| request: "limiter_run mr w mi s G S t \<Longrightarrow> t \<le> now \<Longrightarrow> now \<le> now2 \<Longrightarrow>
     is_allowed now now2 ip s = Return (b, s') \<Longrightarrow>
     limiter_run mr w mi s' (if b then G(ip := G ip @ [now]) else G) (insert ip S) now2"
| remaining: "limiter_run mr w mi s G S t \<Longrightarrow> t \<le> now \<Longrightarrow> get_remaining now ip s = (r, s') \<Longrightarrow>
     limiter_run mr w mi s' G S now"
| clean: "limiter_run mr w mi s G S t \<Longrightarrow> (\<And>i. t \<le> clk i \<and> clk i \<le> t') \<Longrightarrow> cleanup clk s = Return s' \<Longrightarrow>
     limiter_run mr w mi s' G S t'"

lemma is_allowed_keys:
  assumes "limiter_ok t s" and "t \<le> now" and "now \<le> now2" and "is_allowed now now2 ip s = Return (b, s')"
  shows "fst ` set (ip_records s') \<subseteq> insert ip (fst ` set (ip_records s))"
proof (cases "max_requests s \<le> 0")
  case True
  with assms(4) show ?thesis by (auto simp: is_allowed_def)
next
  case False
  then have m: "0 < max_requests s" by simp
  show ?thesis
  proof (cases "map_of (ip_records s) ip")
    case None
    from is_allowed_new [OF assms(1) None m assms(2,3)] obtain s1 s2 :: RateLimiter and rec
      where "is_allowed now now2 ip s = Return (True, s2)" "ip_records s2 = (ip, rec) # ip_records s1"
        "map_of (ip_records s1) \<subseteq>\<^sub>m map_of (ip_records s)" by blast
    with assms(4) have s1: "ip_records s' = (ip, rec) # ip_records s1"
      "map_of (ip_records s1) \<subseteq>\<^sub>m map_of (ip_records s)" by auto
    from s1(2) have "fst ` set (ip_records s1) \<subseteq> fst ` set (ip_records s)"
      by (metis dom_map_of_conv_image_fst map_le_implies_dom_le)
    with s1(1) show ?thesis by auto
  next
    case (Some rec)
    with is_allowed_known [OF assms(1) Some m assms(2,3)] assms(4) obtain l rec'
      where "s' = s\<lparr>lru_list := l, ip_records := AList.update ip rec' (ip_records s)\<rparr>" by auto
    then show ?thesis by (simp add: dom_update)
  qed
qed

lemma cleanup_keys:
  assumes "\<And>ip. cleaned w clk (map_of m ip) (map_of m' ip)"
  shows "fst ` set m' \<subseteq> fst ` set m"
proof -
  have "dom (map_of m') \<subseteq> dom (map_of m)"
    using assms by (metis cleaned.simps(1) domIff subsetI)
  then show ?thesis by (simp add: dom_map_of_conv_image_fst)
qed

text \<open>While no more addresses were seen than the table holds, nothing is evicted.\<close>

lemma room_left:
  assumes "limiter_ok t s" and "fst ` set (ip_records s) \<subseteq> S" and "finite S"
    and "card (insert ip S) \<le> mi"
  shows "map_of (ip_records s) ip \<noteq> None \<or> length (ip_records s) < mi"
proof (cases "map_of (ip_records s) ip")
  case None
  then have "fst ` set (ip_records s) \<subseteq> insert ip S - {ip}"
    using assms(2) by (auto simp: map_of_eq_None_iff)
  then have "card (fst ` set (ip_records s)) \<le> card (insert ip S) - 1"
    using assms(3) by (metis card_Diff_singleton card_mono finite_Diff finite_insert insertI1)
  moreover have "card (fst ` set (ip_records s)) = length (ip_records s)"
    using linked_distinct [OF limiter_ok_linked [OF assms(1)]] by (metis distinct_card length_map set_map)
  moreover have "0 < card (insert ip S)" using assms(3) by (simp add: card_gt_0_iff)
  ultimately show ?thesis using assms(4) by linarith
qed simp

lemma limiter_run_inv:
  assumes "limiter_run mr w mi s G S t"
  shows "limiter_ok t s \<and> max_requests s = mr \<and> window s = w \<and> max_ip_records s = mi \<and>
     finite S \<and> fst ` set (ip_records s) \<subseteq> S \<and> (card S \<le> mi \<longrightarrow> window_inv G t s)"
  using assms
proof (induction rule: limiter_run.induct)
  case (start t)
  show ?case using limiter_ok_new window_inv_new by (simp add: RateLimiter_new_def)
next
  case (request s G S t now now2 ip b s')
  note ok = conjunct1 [OF request.IH]
  have keys: "fst ` set (ip_records s') \<subseteq> insert ip S"
    using is_allowed_keys [OF ok request.hyps(2-4)] request.IH by auto
  have "window_inv (if b then G(ip := G ip @ [now]) else G) now2 s'" if c: "card (insert ip S) \<le> mi"
  proof -
    have "card S \<le> mi" using c request.IH by (metis card_insert_le order_trans)
    moreover have "map_of (ip_records s) ip \<noteq> None \<or> length (ip_records s) < max_ip_records s"
      using room_left [OF ok _ _ c] request.IH by simp
    ultimately show ?thesis
      using is_allowed_window [OF ok _ request.hyps(2,3), of G ip] request.IH request.hyps(4) by auto
  qed
  with keys request.IH is_allowed_ok [OF ok request.hyps(2,3), of ip] request.hyps(4) show ?case by auto
next
  case (remaining s G S t now ip r s')
  have s': "s' = snd (get_remaining now ip s)" using remaining.hyps(3) by simp
  have "fst ` set (ip_records s') \<subseteq> S"
    using remaining.IH unfolding s' get_remaining_def
    by (auto simp: Let_def dom_update dest: map_of_fst_mem split: option.splits)
  with remaining.IH get_remaining_ok [OF _ remaining.hyps(2), of s ip] get_remaining_window [OF _ remaining.hyps(2), of G s ip]
  show ?case unfolding s' by blast
next
  case (clean s G S t clk t' s')
  from cleanup_spec [of t s clk t'] clean obtain
    "limiter_ok t' s'" "max_requests s' = max_requests s" "window s' = window s"
    "max_ip_records s' = max_ip_records s"
    and cl: "\<And>ip. cleaned (window s) clk (map_of (ip_records s) ip) (map_of (ip_records s') ip)"
    by auto
  with clean.IH cleanup_keys [OF cl] cleanup_window [OF _ cl _ clean.hyps(2), of G] show ?case by auto
qed

section \<open>Properties\<close>

lemma run_window_exact:
  assumes "limiter_run mr w mi s G S t" and "card (insert ip S) \<le> mi" and "t \<le> now" and "now \<le> now2"
  shows "\<exists>s'. is_allowed now now2 ip s = Return (int (length (recent w now2 (G ip))) < mr, s')"
proof -
  note inv = limiter_run_inv [OF assms(1)]
  have "card S \<le> mi" using assms(2) inv by (metis card_insert_le order_trans)
  moreover have "map_of (ip_records s) ip \<noteq> None \<or> length (ip_records s) < max_ip_records s"
    using room_left [of t s S ip mi] inv assms(2) by simp
  ultimately show ?thesis
    using is_allowed_window [of t s G now now2 ip] inv assms(3,4) by auto
qed


text \<open>A run used by the witnesses: limit 2, window 60 s, two admissions of one address.\<close>

lemma limiter_run_example:
  "\<exists>s. limiter_run 2 (seconds 60) 10 s ((\<lambda>_. [])(''a'' := [0, 1])) {''a''} 1"
proof -
  let ?w = "seconds 60"
  note r0 = limiter_run.start [of 2 ?w 10 0]
  obtain b1 s1 where a1: "is_allowed 0 0 ''a'' (RateLimiter_new 2 ?w 10) = Return (b1, s1)"
    and b1: "b1 = (int (length (recent ?w 0 [])) < 2)"
    using is_allowed_window [OF limiter_ok_new window_inv_new, of 0 0 0 2 ?w 10 "''a''"]
    by (auto simp: RateLimiter_new_def)
  have r1: "limiter_run 2 ?w 10 s1 ((\<lambda>_. [])(''a'' := [0])) {''a''} 0"
    using limiter_run.request [OF r0 _ _ a1] b1 by (simp add: recent_def)
  obtain s2 where a2: "is_allowed 1 1 ''a'' s1 = Return (True, s2)"
  proof -
    note inv = limiter_run_inv [OF r1]
    have "map_of (ip_records s1) ''a'' \<noteq> None \<or> length (ip_records s1) < max_ip_records s1"
      using room_left [of 0 s1 "{''a''}" "''a''" 10] inv by simp
    with inv is_allowed_window [of 0 s1 "(\<lambda>_. [])(''a'' := [0])" 1 1 "''a''"] that show ?thesis
      by (auto simp: recent_def seconds_def)
  qed
  from limiter_run.request [OF r1 _ _ a2] show ?thesis by auto
qed


text \<open>No address is ever admitted more than \<open>max_requests\<close> times within one window, in any run that
  saw at most \<open>max_ip_records\<close> addresses.\<close>

lemma run_admissions_bounded:
  assumes "limiter_run mr w mi s G S t" and "card S \<le> mi"
  shows "length (recent w t (G ip)) \<le> nat mr"
proof -
  note inv = limiter_run_inv [OF assms(1)]
  have ok: "limiter_ok t s" and win: "window_inv G t s" using inv assms(2) by auto
  show ?thesis
  proof (cases "map_of (ip_records s) ip")
    case None
    with window_inv_None [OF win None] inv show ?thesis by simp
  next
    case (Some rec)
    have "length (recent w t (G ip)) \<le> length (timestamps rec)"
      using window_inv_Some [OF win Some] inv by (simp add: recent_def)
    moreover have "int (length (timestamps rec)) \<le> mr"
      using limiter_ok_record [OF ok Some] inv by (simp add: record_ok_def)
    ultimately show ?thesis by linarith
  qed
qed

text \<open>C26: Every run is free of undefined behaviour and bounded in memory: whatever was called before,
  \<open>is_allowed\<close> and \<open>cleanup\<close> return (no dangling list iterator is used), the table never holds more
  than \<open>max_ip_records\<close> records (one, if that limit is 0), and its LRU list names exactly the
  addresses of the table.\<close>

theorem limiter_run_safe:
  assumes "limiter_run mr w mi s G S t" and "t \<le> now" and "now \<le> now2" and "\<And>i. t \<le> clk i \<and> clk i \<le> t'"
  shows "(\<exists>b s'. is_allowed now now2 ip s = Return (b, s')) \<and> (\<exists>s'. cleanup clk s = Return s') \<and>
     length (ip_records s) \<le> max 1 mi \<and> set (list_values (lru_list s)) = fst ` set (ip_records s)"
proof -
  note inv = limiter_run_inv [OF assms(1)]
  then have ok: "limiter_ok t s" by simp
  have "\<exists>s'. cleanup clk s = Return s'" using cleanup_spec [of t s clk t', OF ok assms(4)] by blast
  with is_allowed_ok [OF ok assms(2,3), of ip] inv linked_keys [OF limiter_ok_linked [OF ok]] ok
  show ?thesis by (auto simp: limiter_ok_def)
qed

theorem limiter_run_safe_witness:
  "\<exists>s G S. limiter_run 2 (seconds 60) 10 s G S 1 \<and> (\<exists>s'. cleanup (\<lambda>i. 5) s = Return s') \<and>
     length (ip_records s) \<le> max 1 10"
proof -
  obtain s where r: "limiter_run 2 (seconds 60) 10 s ((\<lambda>_. [])(''a'' := [0, 1])) {''a''} 1"
    using limiter_run_example by blast
  from limiter_run_safe [OF r, of 5 5 "\<lambda>i. 5" 5]
  have "(\<exists>s'. cleanup (\<lambda>i. 5) s = Return s') \<and> length (ip_records s) \<le> max 1 10" by simp
  with r show ?thesis by blast
qed



end
