(* ===== verification/Auth.thy ===== *)
theory Auth
  imports Prelude
begin

text \<open>
  \<open>auth.cpp\<close>: the set of accepted API keys, stored as hexadecimal SHA-256 digests. OpenSSL's
  \<open>SHA256\<close> is the parameter \<open>SHA256\<close>; what is used of it is that a digest has 32 bytes and, where
  a statement speaks of keys and not of digests, that the keys at hand do not collide. The file
  system is a function from paths to the contents of readable files. Writing to the log is left
  out here and in every component below.
\<close>

section \<open>Model\<close>

type_synonym byte = "8 word"
type_synonym file_system = "string \<Rightarrow> string option"

definition SHA256_DIGEST_LENGTH :: nat where
  "SHA256_DIGEST_LENGTH = 32"

definition hex_digit :: "byte \<Rightarrow> char" where
  "hex_digit n = ''0123456789abcdef'' ! unat n"

unbundle bit_operations_syntax

definition sha256Hash :: "(string \<Rightarrow> byte list) \<Rightarrow> string \<Rightarrow> string" where
  "sha256Hash SHA256 input = (let hash = SHA256 input in
     concat (map (\<lambda>i. [hex_digit (drop_bit 4 (hash ! i)), hex_digit ((hash ! i) AND 15)])
       [0..<SHA256_DIGEST_LENGTH]))"

record APIAuth =
  api_key_hashes :: "string set"

definition APIAuth_new :: APIAuth where
  "APIAuth_new = \<lparr>api_key_hashes = {}\<rparr>"

definition add_key :: "(string \<Rightarrow> byte list) \<Rightarrow> string \<Rightarrow> APIAuth \<Rightarrow> APIAuth" where
  "add_key SHA256 key a =
     (if key = [] then a
      else a\<lparr>api_key_hashes := insert (sha256Hash SHA256 key) (api_key_hashes a)\<rparr>)"

definition is_valid :: "(string \<Rightarrow> byte list) \<Rightarrow> APIAuth \<Rightarrow> string \<Rightarrow> bool" where
  "is_valid SHA256 a key =
     (if key = [] then False else sha256Hash SHA256 key \<in> api_key_hashes a)"

definition key_count :: "APIAuth \<Rightarrow> nat" where
  "key_count a = card (api_key_hashes a)"

text \<open>The lines successive calls of \<open>std::getline\<close> deliver.\<close>

function getlines :: "string \<Rightarrow> string list" where
  "getlines [] = []"
| "getlines (c # cs) = (let line = takeWhile (\<lambda>x. x \<noteq> CHR 0x0A) (c # cs)
     in line # getlines (drop (Suc (length line)) (c # cs)))"
  by pat_completeness auto
termination by (relation "measure length") auto

definition whitespace :: "char set" where
  "whitespace = {CHR '' '', CHR 0x09, CHR 0x0D, CHR 0x0A}"

definition load_line :: "(string \<Rightarrow> byte list) \<Rightarrow> string set \<times> nat \<Rightarrow> string \<Rightarrow> string set \<times> nat" where
  "load_line SHA256 = (\<lambda>(hashes, cnt) line.
     (if line = [] \<or> hd line = CHR ''#'' then (hashes, cnt)
      else case (find_first_not_of whitespace line, find_last_not_of whitespace line) of
        (Some start, Some end) \<Rightarrow>
          (let key_hash = sha256Hash SHA256 (substr line start (end - start + 1))
           in if key_hash \<in> hashes then (hashes, cnt) else (insert key_hash hashes, cnt + 1))
      | _ \<Rightarrow> (hashes, cnt)))"

definition load_keys_from_file ::
  "(string \<Rightarrow> byte list) \<Rightarrow> file_system \<Rightarrow> string \<Rightarrow> APIAuth \<Rightarrow> bool \<times> APIAuth" where
  "load_keys_from_file SHA256 files filepath a =
     (case files filepath of
        None \<Rightarrow> (False, a)
      | Some content \<Rightarrow>
          (let (hashes, cnt) = foldl (load_line SHA256) ({}, 0) (getlines content)
           in (True, a\<lparr>api_key_hashes := hashes\<rparr>)))"

section \<open>Digests\<close>

lemma hex_digit_inj: "unat a < 16 \<Longrightarrow> unat b < 16 \<Longrightarrow> hex_digit a = hex_digit b \<longleftrightarrow> a = b"
proof -
  assume a: "unat a < 16" and b: "unat b < 16"
  have "distinct ''0123456789abcdef''" by simp
  moreover have "unat a < length ''0123456789abcdef''" "unat b < length ''0123456789abcdef''"
    using a b by simp_all
  ultimately show ?thesis unfolding hex_digit_def by (simp only: nth_eq_iff_index_eq word_unat_eq_iff)
qed

lemma byte_nibbles: "drop_bit 4 a = drop_bit 4 b \<Longrightarrow> a AND 15 = b AND 15 \<Longrightarrow> a = (b::byte)"
proof -
  assume d: "drop_bit 4 a = drop_bit 4 b" and m: "a AND 15 = b AND 15"
  have mask: "x AND 15 = take_bit 4 x" for x :: byte
    by (simp add: take_bit_eq_mask mask_eq_exp_minus_1)
  have "push_bit 4 (drop_bit 4 a) OR take_bit 4 a = a"
    "push_bit 4 (drop_bit 4 b) OR take_bit 4 b = b"
    by (simp_all add: bit_simps bit_eq_iff) auto
  with d m show ?thesis unfolding mask by metis
qed

lemma nibble_bounds: "unat (drop_bit 4 (a::byte)) < 16" "unat ((a::byte) AND 15) < 16"
proof -
  have "unat a < 256" using unsigned_less [of a, where 'a = nat] by simp
  then show "unat (drop_bit 4 a) < 16" by (simp add: drop_bit_eq_div unat_div_distrib)
  have "a AND 15 = take_bit 4 a" by (simp add: take_bit_eq_mask mask_eq_exp_minus_1)
  then show "unat (a AND 15) < 16" by (simp add: take_bit_eq_mod unat_mod_distrib)
qed

lemma concat_pairs_inj:
  "concat (map (\<lambda>i. [f i, g i]) is) = concat (map (\<lambda>i. [f' i, g' i]) is) \<longleftrightarrow>
     (\<forall>i\<in>set is. f i = f' i \<and> g i = g' i)"
  by (induction "is") auto

lemma sha256Hash_eq_iff:
  assumes "length (SHA256 a) = SHA256_DIGEST_LENGTH" "length (SHA256 b) = SHA256_DIGEST_LENGTH"
  shows "sha256Hash SHA256 a = sha256Hash SHA256 b \<longleftrightarrow> SHA256 a = SHA256 b"
proof -
  have "sha256Hash SHA256 a = sha256Hash SHA256 b \<longleftrightarrow>
      (\<forall>i\<in>{0..<SHA256_DIGEST_LENGTH}. SHA256 a ! i = SHA256 b ! i)"
    unfolding sha256Hash_def Let_def concat_pairs_inj
    by (auto simp: hex_digit_inj nibble_bounds intro: byte_nibbles)
  also have "\<dots> \<longleftrightarrow> SHA256 a = SHA256 b"
    using assms by (auto simp: list_eq_iff_nth_eq [of "SHA256 a"])
  finally show ?thesis .
qed

definition no_collision :: "(string \<Rightarrow> byte list) \<Rightarrow> string set \<Rightarrow> bool" where
  \<comment> \<open>32-byte digests, different for the different strings of the set\<close>
  "no_collision SHA256 ks \<longleftrightarrow>
     (\<forall>k\<in>ks. length (SHA256 k) = SHA256_DIGEST_LENGTH) \<and> inj_on SHA256 ks"

lemma no_collision_inj_on: "no_collision SHA256 ks \<Longrightarrow> inj_on (sha256Hash SHA256) ks"
  by (auto simp: no_collision_def inj_on_def sha256Hash_eq_iff)

section \<open>Keys of a file\<close>

definition trim :: "string \<Rightarrow> string" where
  "trim s = rev (dropWhile (\<lambda>c. c \<in> whitespace) (rev (dropWhile (\<lambda>c. c \<in> whitespace) s)))"

definition file_keys :: "string \<Rightarrow> string list" where
  \<comment> \<open>the non-blank lines that do not start with a hash sign, without surrounding blanks\<close>
  "file_keys content =
     filter (\<lambda>k. k \<noteq> []) (map trim (filter (\<lambda>l. l \<noteq> [] \<and> hd l \<noteq> CHR ''#'') (getlines content)))"

lemma rev_dropWhile_rev: "rev (dropWhile P (rev xs)) = take (length xs - length (takeWhile P (rev xs))) xs"
  by (simp add: dropWhile_eq_drop rev_drop)

lemma length_takeWhile_less_iff: "length (takeWhile P xs) < length xs \<longleftrightarrow> (\<exists>x\<in>set xs. \<not> P x)"
  by (induction xs) auto

lemma trim_Nil_iff: "trim s = [] \<longleftrightarrow> (\<forall>c\<in>set s. c \<in> whitespace)"
proof -
  have "trim s = [] \<longleftrightarrow> (\<forall>c\<in>set (dropWhile (\<lambda>c. c \<in> whitespace) s). c \<in> whitespace)"
    by (simp add: trim_def)
  also have "\<dots> \<longleftrightarrow> (\<forall>c\<in>set s. c \<in> whitespace)"
    by (induction s) auto
  finally show ?thesis .
qed

lemma trim_by_position:
  "(find_first_not_of whitespace line = None \<longleftrightarrow> trim line = []) \<and>
   (find_last_not_of whitespace line = None \<longleftrightarrow> trim line = []) \<and>
   (\<forall>start end. find_first_not_of whitespace line = Some start \<longrightarrow>
      find_last_not_of whitespace line = Some end \<longrightarrow>
      substr line start (end - start + 1) = trim line)"
proof -
  let ?P = "\<lambda>c. c \<in> whitespace"
  let ?n = "length (takeWhile ?P line)" and ?m = "length (takeWhile ?P (rev line))"
  have fst: "find_first_not_of whitespace line = (if trim line = [] then None else Some ?n)"
    by (auto simp: find_first_not_of_def Let_def length_takeWhile_less_iff trim_Nil_iff)
  have lst: "find_last_not_of whitespace line =
      (if trim line = [] then None else Some (length line - 1 - ?m))"
    using length_takeWhile_less_iff [of ?P "rev line"]
    by (auto simp: find_last_not_of_def Let_def trim_Nil_iff)
  have "substr line ?n (length line - 1 - ?m - ?n + 1) = trim line" if ne: "trim line \<noteq> []"
  proof -
    let ?d = "drop ?n line"
    have d: "dropWhile ?P line = ?d" by (simp add: dropWhile_eq_drop)
    have "\<exists>c\<in>set ?d. \<not> ?P c"
      using ne d by (auto simp: trim_def)
    then obtain c where "c \<in> set (rev ?d)" "\<not> ?P c" by auto
    then have tw: "takeWhile ?P (rev ?d @ rev (take ?n line)) = takeWhile ?P (rev ?d)"
      by (rule takeWhile_append1)
    have "rev line = rev ?d @ rev (take ?n line)"
      by (metis append_take_drop_id rev_append)
    with tw have m: "takeWhile ?P (rev line) = takeWhile ?P (rev ?d)" by metis
    have "length (takeWhile ?P (rev ?d)) < length (rev ?d)"
      using \<open>\<exists>c\<in>set ?d. \<not> ?P c\<close> by (subst length_takeWhile_less_iff) auto
    with m have "?m + ?n < length line" by simp
    then have "length line - 1 - ?m - ?n + 1 = length ?d - ?m" by simp
    then show ?thesis by (simp add: substr_def trim_def d rev_dropWhile_rev m)
  qed
  with fst lst show ?thesis by simp
qed

lemma load_line_eq:
  "load_line SHA256 (hashes, cnt) line =
     (if line = [] \<or> hd line = CHR ''#'' \<or> trim line = [] then (hashes, cnt)
      else (insert (sha256Hash SHA256 (trim line)) hashes,
            if sha256Hash SHA256 (trim line) \<in> hashes then cnt else cnt + 1))"
  using trim_by_position [of line]
  by (auto simp: load_line_def Let_def insert_absorb split: option.splits)

lemma load_lines_eq:
  "foldl (load_line SHA256) (hashes, cnt) ls = (hashes', cnt') \<Longrightarrow> finite hashes \<Longrightarrow> cnt = card hashes \<Longrightarrow>
     hashes' = hashes \<union> sha256Hash SHA256 `
       set (filter (\<lambda>k. k \<noteq> []) (map trim (filter (\<lambda>l. l \<noteq> [] \<and> hd l \<noteq> CHR ''#'') ls))) \<and>
     finite hashes' \<and> cnt' = card hashes'"
proof (induction ls arbitrary: hashes cnt)
  case Nil
  then show ?case by auto
next
  case (Cons l ls)
  obtain h c where hc: "load_line SHA256 (hashes, cnt) l = (h, c)" by (cases "load_line SHA256 (hashes, cnt) l")
  have "finite h" "c = card h"
    using hc Cons.prems by (auto simp: load_line_eq insert_absorb split: if_splits)
  with Cons.IH [of h c] Cons.prems hc show ?case
    by (auto simp: load_line_eq split: if_splits)
qed

lemma load_keys_hashes:
  assumes "files path = Some content"
  shows "api_key_hashes (snd (load_keys_from_file SHA256 files path a)) =
           sha256Hash SHA256 ` set (file_keys content)"
proof -
  obtain h c where hc: "foldl (load_line SHA256) ({}, 0) (getlines content) = (h, c)"
    by (cases "foldl (load_line SHA256) ({}, 0) (getlines content)")
  with load_lines_eq [OF hc] show ?thesis
    by (simp add: load_keys_from_file_def assms file_keys_def)
qed

section \<open>Properties\<close>

text \<open>C28: Loading a key file that can be opened replaces the accepted keys by exactly the keys the file
  lists: a key is valid afterwards iff it is one of the file's non-blank, non-comment lines stripped
  of surrounding blanks, whatever keys were accepted before, and the count of stored keys is the
  number of different keys of the file. Assumed is that the digests of the strings concerned do not
  collide. A file that cannot be opened is reported and changes nothing.\<close>

theorem load_keys_exact:
  assumes "no_collision SHA256 (insert key (set (file_keys content)))"
    and "files path = Some content" and "files missing = None"
  shows "fst (load_keys_from_file SHA256 files path a) \<and>
    (is_valid SHA256 (snd (load_keys_from_file SHA256 files path a)) key \<longleftrightarrow>
       key \<in> set (file_keys content)) \<and>
    key_count (snd (load_keys_from_file SHA256 files path a)) = card (set (file_keys content)) \<and>
    load_keys_from_file SHA256 files missing a = (False, a)"
proof -
  let ?a = "snd (load_keys_from_file SHA256 files path a)"
  have inj: "inj_on (sha256Hash SHA256) (insert key (set (file_keys content)))"
    by (rule no_collision_inj_on [OF assms(1)])
  have hashes: "api_key_hashes ?a = sha256Hash SHA256 ` set (file_keys content)"
    by (rule load_keys_hashes [where files = files, OF assms(2)])
  have "[] \<notin> set (file_keys content)" by (simp add: file_keys_def)
  moreover have "sha256Hash SHA256 key \<in> sha256Hash SHA256 ` set (file_keys content) \<longleftrightarrow>
      key \<in> set (file_keys content)"
    using inj by (auto simp: inj_on_def)
  ultimately have "is_valid SHA256 ?a key \<longleftrightarrow> key \<in> set (file_keys content)"
    by (auto simp: is_valid_def hashes)
  moreover have "key_count ?a = card (set (file_keys content))"
    using inj by (simp add: key_count_def hashes card_image)
  ultimately show ?thesis
    using assms(2,3) by (simp add: load_keys_from_file_def case_prod_beta Let_def)
qed

definition toy_digest :: "string \<Rightarrow> byte list" where
  "toy_digest s = of_nat (length s) # replicate 31 0"

lemmas auth_eval = toy_digest_def no_collision_def SHA256_DIGEST_LENGTH_def is_valid_def key_count_def

theorem load_keys_exact_witness:
  "is_valid toy_digest (snd (load_keys_from_file toy_digest
      (\<lambda>p. if p = ''keys'' then Some (''# c'' @ [CHR 0x0A] @ '' ab '' @ [CHR 0x0D, CHR 0x0A] @ ''cde'') else None)
      ''keys'' APIAuth_new)) ''ab''"
proof -
  let ?c = "''# c'' @ [CHR 0x0A] @ '' ab '' @ [CHR 0x0D, CHR 0x0A] @ ''cde''"
  have keys: "file_keys ?c = [''ab'', ''cde'']"
    by (simp add: file_keys_def trim_def whitespace_def)
  have "no_collision toy_digest (insert ''ab'' (set (file_keys ?c)))"
    unfolding keys by (simp add: auth_eval)
  from load_keys_exact [OF this, where files = "\<lambda>p. if p = ''keys'' then Some ?c else None"
      and path = "''keys''" and missing = "''x''" and a = APIAuth_new]
  show ?thesis using keys by simp
qed

lemma add_keys_hashes:
  "api_key_hashes (foldl (\<lambda>a k. add_key SHA256 k a) a ks) =
     api_key_hashes a \<union> sha256Hash SHA256 ` (set ks - {[]})"
  by (induction ks arbitrary: a) (auto simp: add_key_def)

text \<open>After any sequence of \<open>add_key\<close> calls on an empty authenticator, a key is valid iff it is not
  empty and was added, and the number of stored keys is the number of different non-empty keys
  added: empty keys are refused and duplicates are stored once.\<close>

lemma add_keys_exact:
  assumes "no_collision SHA256 (insert key (set ks))"
  shows "(is_valid SHA256 (foldl (\<lambda>a k. add_key SHA256 k a) APIAuth_new ks) key \<longleftrightarrow>
      key \<noteq> [] \<and> key \<in> set ks) \<and>
    key_count (foldl (\<lambda>a k. add_key SHA256 k a) APIAuth_new ks) = card (set ks - {[]})"
proof -
  have "inj_on (sha256Hash SHA256) (insert key (set ks))"
    by (rule no_collision_inj_on [OF assms])
  then have inj: "inj_on (sha256Hash SHA256) (insert key (set ks - {[]}))"
    by (rule inj_on_subset) auto
  have "key_count (foldl (\<lambda>a k. add_key SHA256 k a) APIAuth_new ks) = card (set ks - {[]})"
    using inj by (simp add: key_count_def add_keys_hashes APIAuth_new_def card_image)
  moreover have "sha256Hash SHA256 key \<in> sha256Hash SHA256 ` (set ks - {[]}) \<longleftrightarrow> key \<in> set ks - {[]}"
    using inj by (auto simp: inj_on_def)
  ultimately show ?thesis
    by (auto simp: is_valid_def add_keys_hashes APIAuth_new_def)
qed

end
