(* ===== verification/Metrics.thy ===== *)
theory Metrics
  imports Prelude
begin

text \<open>
  \<open>metrics.cpp\<close>: request and error counters, the last thousand latencies and the timestamps of the
  last minute. Clock readings are arguments in the order the code takes them; \<open>fl\<close> rounds to
  double.
\<close>

section \<open>Model\<close>

definition MAX_LATENCIES :: nat where
  "MAX_LATENCIES = 1000"

record Metrics =
  total_requests :: u64
  total_errors :: u64
  latencies :: "double list"
  start_time :: time_point
  request_timestamps :: "time_point list"

record Stats =
  stat_total_requests :: u64
  stat_total_errors :: u64
  error_rate :: double
  current_qps :: double
  avg_latency_ms :: double
  p50_latency_ms :: double
  p95_latency_ms :: double
  p99_latency_ms :: double
  uptime_seconds :: u64

definition Metrics_new :: "time_point \<Rightarrow> Metrics" where
  "Metrics_new now = \<lparr>total_requests = 0, total_errors = 0, latencies = [], start_time = now,
     request_timestamps = []\<rparr>"

definition record_request :: "time_point \<Rightarrow> double \<Rightarrow> Metrics \<Rightarrow> Metrics" where
  "record_request now latency_ms m =
     (let m1 = m\<lparr>total_requests := total_requests m + 1\<rparr>;
          pushed = latencies m1 @ [latency_ms];
          m2 = m1\<lparr>latencies := (if length pushed > MAX_LATENCIES then tl pushed else pushed)\<rparr>;
          cutoff = now - seconds 60
      in m2\<lparr>request_timestamps := dropWhile (\<lambda>t. t < cutoff) (request_timestamps m2 @ [now])\<rparr>)"

definition record_error :: "Metrics \<Rightarrow> Metrics" where
  "record_error m = m\<lparr>total_errors := total_errors m + 1\<rparr>"

definition percentile_index :: "(real \<Rightarrow> real) \<Rightarrow> double \<Rightarrow> nat \<Rightarrow> nat" where
  "percentile_index fl percentile n = nat \<lfloor>fl (percentile * fl (real (n - 1)))\<rfloor>"

definition calculate_percentile :: "(real \<Rightarrow> real) \<Rightarrow> double \<Rightarrow> Metrics \<Rightarrow> double outcome" where
  \<comment> \<open>an index beyond the vector is undefined behaviour\<close>
  "calculate_percentile fl percentile m =
     (if latencies m = [] then Return 0
      else let sorted_latencies = sort (latencies m);
               index = percentile_index fl percentile (length sorted_latencies)
           in if index < length sorted_latencies then Return (sorted_latencies ! index) else Undefined)"

definition calculate_qps :: "(real \<Rightarrow> real) \<Rightarrow> Metrics \<Rightarrow> double" where
  "calculate_qps fl m =
     (let ts = request_timestamps m in
      if length ts < 2 then 0
      else let duration = trunc_div (last ts - hd ts) 1000000 in
        if duration = 0 then 0
        else fl (fl (fl (real (length ts - 1)) / fl (real_of_int duration)) * 1000))"

definition accumulate :: "(real \<Rightarrow> real) \<Rightarrow> double list \<Rightarrow> double" where
  "accumulate fl xs = foldl (\<lambda>acc x. fl (acc + x)) 0 xs"

definition get_stats :: "(real \<Rightarrow> real) \<Rightarrow> time_point \<Rightarrow> Metrics \<Rightarrow> Stats outcome" where
  "get_stats fl now m =
     (let n = fl (real (unat (total_requests m)));
          rate = (if total_requests m > 0
                  then fl (fl (fl (real (unat (total_errors m))) / n) * 100) else 0);
          size = fl (real (length (latencies m)));
          avg = (if latencies m \<noteq> [] then fl (accumulate fl (latencies m) / size) else 0);
          pct = (\<lambda>p. if latencies m \<noteq> [] then calculate_percentile fl (fl p) m else Return 0)
      in obind (pct (50 / 100)) (\<lambda>p50. obind (pct (95 / 100)) (\<lambda>p95. obind (pct (99 / 100)) (\<lambda>p99.
           Return \<lparr>stat_total_requests = total_requests m, stat_total_errors = total_errors m,
             error_rate = rate, current_qps = calculate_qps fl m, avg_latency_ms = avg,
             p50_latency_ms = p50, p95_latency_ms = p95, p99_latency_ms = p99,
             uptime_seconds = word_of_int (trunc_div (now - start_time m) 1000000000)\<rparr>))))"

section \<open>Bounded memory\<close>

lemma record_request_latencies:
  "latencies m = drop (length xs - MAX_LATENCIES) xs \<Longrightarrow>
     latencies (record_request now x m) = drop (length (xs @ [x]) - MAX_LATENCIES) (xs @ [x])"
proof -
  assume "latencies m = drop (length xs - MAX_LATENCIES) xs"
  then have "latencies (record_request now x m) =
      (if Suc (length xs - (length xs - MAX_LATENCIES)) > MAX_LATENCIES
       then tl (drop (length xs - MAX_LATENCIES) (xs @ [x])) else drop (length xs - MAX_LATENCIES) (xs @ [x]))"
    by (simp add: record_request_def Let_def)
  also have "\<dots> = drop (length (xs @ [x]) - MAX_LATENCIES) (xs @ [x])"
  proof (cases "length xs < MAX_LATENCIES")
    case True
    then show ?thesis by auto
  next
    case False
    then have "tl (drop (length xs - MAX_LATENCIES) (xs @ [x])) =
        drop (Suc (length xs) - MAX_LATENCIES) (xs @ [x])"
      by (simp only: tl_drop drop_Suc Suc_diff_le not_less)
    with False show ?thesis by simp
  qed
  finally show ?thesis .
qed

lemma record_request_timestamps:
  assumes "request_timestamps m = filter (\<lambda>t. c \<le> t) ts" and "sorted (ts @ [now])"
    and "c \<le> now - seconds 60"
  shows "request_timestamps (record_request now x m) = filter (\<lambda>t. now - seconds 60 \<le> t) (ts @ [now])"
proof -
  have "sorted (filter (\<lambda>t. c \<le> t) ts @ [now])"
    using assms(2) by (auto simp: sorted_append intro: sorted_wrt_filter)
  then have "dropWhile (\<lambda>t. t < now - seconds 60) (filter (\<lambda>t. c \<le> t) ts @ [now]) =
      filter (\<lambda>t. \<not> t < now - seconds 60) (filter (\<lambda>t. c \<le> t) ts @ [now])"
    by (rule dropWhile_sorted_filter) auto
  also have "\<dots> = filter (\<lambda>t. now - seconds 60 \<le> t) (ts @ [now])"
    using assms(3) by (auto simp: intro: filter_cong)
  finally show ?thesis using assms(1) by (simp add: record_request_def Let_def)
qed

definition record_all :: "Metrics \<Rightarrow> (time_point \<times> double) list \<Rightarrow> Metrics" where
  "record_all m evs = foldl (\<lambda>m (now, x). record_request now x m) m evs"

lemma record_all_snoc: "record_all m (evs @ [(t, x)]) = record_request t x (record_all m evs)"
  by (simp add: record_all_def)

lemma record_request_total [simp]:
  "total_requests (record_request now x m) = total_requests m + 1"
  "total_errors (record_request now x m) = total_errors m"
  "start_time (record_request now x m) = start_time m"
  by (simp_all add: record_request_def Let_def)

text \<open>C34: Recording any sequence of requests with a clock that does not run backwards, the collector
  holds exactly the last thousand latencies in order, exactly the timestamps of the minute before
  the last request, and the number of requests modulo \<open>2^64\<close>.\<close>

theorem record_all_window:
  assumes "sorted (map fst evs)" and "evs \<noteq> []"
  shows "latencies (record_all (Metrics_new t0) evs) = drop (length evs - MAX_LATENCIES) (map snd evs) \<and>
    request_timestamps (record_all (Metrics_new t0) evs) =
      filter (\<lambda>t. fst (last evs) - seconds 60 \<le> t) (map fst evs) \<and>
    total_requests (record_all (Metrics_new t0) evs) = of_nat (length evs)"
  using assms
proof (induction evs rule: rev_induct)
  case Nil
  then show ?case by simp
next
  case (snoc ev evs)
  obtain t x where ev: "ev = (t, x)" by (cases ev)
  let ?m = "record_all (Metrics_new t0) evs"
  have IH: "evs \<noteq> [] \<Longrightarrow> latencies ?m = drop (length evs - MAX_LATENCIES) (map snd evs) \<and>
      request_timestamps ?m = filter (\<lambda>t. fst (last evs) - seconds 60 \<le> t) (map fst evs) \<and>
      total_requests ?m = of_nat (length evs)"
    using snoc by (simp add: sorted_append)
  have new: "evs = [] \<Longrightarrow> ?m = Metrics_new t0" by (simp add: record_all_def)
  have lat: "latencies ?m = drop (length (map snd evs) - MAX_LATENCIES) (map snd evs)"
    using IH new by (cases "evs = []") (auto simp: Metrics_new_def)
  have tot: "total_requests ?m = of_nat (length evs)"
    using IH new by (cases "evs = []") (auto simp: Metrics_new_def)
  define c where "c = (if evs = [] then t else fst (last evs)) - seconds 60"
  have ts: "request_timestamps ?m = filter (\<lambda>t. c \<le> t) (map fst evs)"
    using IH new by (cases "evs = []") (auto simp: Metrics_new_def c_def)
  have "sorted (map fst evs @ [t])" and "c \<le> t - seconds 60"
    using snoc.prems ev by (auto simp: sorted_append c_def)
  from record_request_timestamps [OF ts this]
  have "request_timestamps (record_request t x ?m) = filter (\<lambda>u. t - seconds 60 \<le> u) (map fst evs @ [t])" .
  with record_request_latencies [OF lat, of t x] tot show ?case
    by (simp add: ev record_all_snoc)
qed

theorem record_all_window_witness:
  "request_timestamps (record_all (Metrics_new 0) [(0, 5), (seconds 30, 7), (seconds 61, 9)]) =
     [seconds 30, seconds 61]"
  using record_all_window [of "[(0, 5), (seconds 30, 7), (seconds 61, 9)]" 0]
  by (simp add: seconds_def)

section \<open>Percentiles\<close>

lemma length_filter_sort: "length (filter P (sort xs)) = length (filter P xs)"
  by (metis filter_sort length_sort)

lemma sorted_rank:
  assumes "sorted ys" and "k < length ys"
  shows "Suc k \<le> length (filter (\<lambda>y. y \<le> ys ! k) ys)" "length ys - k \<le> length (filter (\<lambda>y. ys ! k \<le> y) ys)"
proof -
  have "{0..k} \<subseteq> {i. i < length ys \<and> ys ! i \<le> ys ! k}"
    using assms by (auto simp: sorted_nth_mono)
  then have "card {0..k} \<le> card {i. i < length ys \<and> ys ! i \<le> ys ! k}" by (intro card_mono) auto
  then show "Suc k \<le> length (filter (\<lambda>y. y \<le> ys ! k) ys)" by (simp add: length_filter_conv_card)
  have "{k..<length ys} \<subseteq> {i. i < length ys \<and> ys ! k \<le> ys ! i}"
    using assms by (auto simp: sorted_nth_mono)
  then have "card {k..<length ys} \<le> card {i. i < length ys \<and> ys ! k \<le> ys ! i}" by (intro card_mono) auto
  then show "length ys - k \<le> length (filter (\<lambda>y. ys ! k \<le> y) ys)" by (simp add: length_filter_conv_card)
qed

lemma percentile_index_eq:
  assumes "ieee_rounding fl" "n \<le> 2 ^ 53"
  shows "percentile_index fl p n = nat \<lfloor>fl (p * real (n - 1))\<rfloor>"
proof -
  have "n - 1 \<le> 2 ^ 53" using assms(2) by linarith
  then show ?thesis unfolding percentile_index_def by (simp only: ieee_of_nat [OF assms(1)])
qed

lemma percentile_index_bound:
  assumes "ieee_rounding fl" "0 \<le> p" "p \<le> 1" "0 < n" "n \<le> 2 ^ 53"
  shows "percentile_index fl p n < n"
proof -
  have "p * real (n - 1) \<le> real (n - 1)" using assms(2,3) by (intro mult_left_le_one_le) auto
  then have "fl (p * real (n - 1)) \<le> fl (real (n - 1))" by (rule ieee_mono [OF assms(1)])
  also have "\<dots> = real (n - 1)" by (rule ieee_of_nat [OF assms(1)]) (use assms(5) in linarith)
  finally have "\<lfloor>fl (p * real (n - 1))\<rfloor> \<le> int (n - 1)" by linarith
  then show ?thesis using assms(4) unfolding percentile_index_eq [OF assms(1,5)] by linarith
qed

lemma percentile_index_mono:
  assumes "ieee_rounding fl" "p \<le> q" "n \<le> 2 ^ 53"
  shows "percentile_index fl p n \<le> percentile_index fl q n"
proof -
  have "p * real (n - 1) \<le> q * real (n - 1)" using assms(2) by (intro mult_right_mono) auto
  then have "fl (p * real (n - 1)) \<le> fl (q * real (n - 1))" by (rule ieee_mono [OF assms(1)])
  then show ?thesis unfolding percentile_index_eq [OF assms(1,3)] by (intro nat_mono floor_mono)
qed

lemma calculate_percentile_nth:
  assumes "ieee_rounding fl" "0 \<le> p" "p \<le> 1" "latencies m \<noteq> []" "length (latencies m) \<le> 2 ^ 53"
  shows "calculate_percentile fl p m =
      Return (sort (latencies m) ! percentile_index fl p (length (latencies m)))"
    and "percentile_index fl p (length (latencies m)) < length (latencies m)"
proof -
  show "percentile_index fl p (length (latencies m)) < length (latencies m)"
    using percentile_index_bound [OF assms(1-3) _ assms(5)] assms(4) by simp
  then show "calculate_percentile fl p m =
      Return (sort (latencies m) ! percentile_index fl p (length (latencies m)))"
    using assms(4) by (simp add: calculate_percentile_def Let_def)
qed

text \<open>C35: A percentile of a non-empty collector never indexes outside the sorted copy, whatever the
  rounding of the index computation, and is an order statistic: with \<open>k\<close> the truncated rank, more
  than \<open>k\<close> recorded latencies are at most the result and all but \<open>k\<close> are at least the result.\<close>

theorem percentile_order_statistic:
  assumes "ieee_rounding fl" "0 \<le> p" "p \<le> 1" "latencies m \<noteq> []" "length (latencies m) \<le> MAX_LATENCIES"
  shows "\<exists>x. calculate_percentile fl p m = Return x \<and> x \<in> set (latencies m) \<and>
    (let k = nat \<lfloor>fl (p * real (length (latencies m) - 1))\<rfloor> in
       k < length (filter (\<lambda>y. y \<le> x) (latencies m)) \<and>
       length (latencies m) - k \<le> length (filter (\<lambda>y. x \<le> y) (latencies m)))"
proof -
  let ?n = "length (latencies m)" and ?ys = "sort (latencies m)"
  have bound: "?n \<le> 2 ^ 53" using assms(5) by (simp add: MAX_LATENCIES_def)
  define k where "k = percentile_index fl p ?n"
  have k: "k < length ?ys" and pct: "calculate_percentile fl p m = Return (?ys ! k)"
    using calculate_percentile_nth [OF assms(1-4) bound] by (simp_all add: k_def)
  have "sorted ?ys" by simp
  note rank = sorted_rank [OF this k]
  have "?ys ! k \<in> set (latencies m)" using nth_mem [OF k] by simp
  with pct rank show ?thesis
    unfolding percentile_index_eq [OF assms(1) bound, symmetric] k_def [symmetric] Let_def
    by (auto simp: length_filter_sort intro!: exI [of _ "?ys ! k"])
qed

theorem percentile_order_statistic_witness:
  "\<exists>x. calculate_percentile (\<lambda>x. x) (95 / 100) (record_all (Metrics_new 0) [(0, 5), (1, 7)]) = Return x \<and> x \<in> {5, 7}"
proof -
  have lat: "latencies (record_all (Metrics_new 0) [(0, 5), (1, 7)]) = [5, 7]"
    by (simp add: record_all_def record_request_def Metrics_new_def MAX_LATENCIES_def Let_def)
  show ?thesis
    using percentile_order_statistic [OF ieee_rounding_id, of "95 / 100" "record_all (Metrics_new 0) [(0, 5), (1, 7)]"]
    unfolding lat by (auto simp: MAX_LATENCIES_def)
qed

definition metrics_bounded :: "Metrics \<Rightarrow> bool" where
  "metrics_bounded m \<longleftrightarrow> length (latencies m) \<le> MAX_LATENCIES"

lemma metrics_bounded_new [inv_intros]: "metrics_bounded (Metrics_new t)"
  by (simp add: metrics_bounded_def Metrics_new_def)

lemma metrics_bounded_record [inv_intros]: "metrics_bounded m \<Longrightarrow> metrics_bounded (record_request now x m)"
  by (auto simp: metrics_bounded_def record_request_def Let_def)

lemma metrics_bounded_error [inv_intros]: "metrics_bounded m \<Longrightarrow> metrics_bounded (record_error m)"
  by (simp add: metrics_bounded_def record_error_def)

lemma get_stats_defined:
  assumes "ieee_rounding fl" "metrics_bounded m"
  shows "\<exists>s. get_stats fl now m = Return s"
proof (cases "latencies m = []")
  case True
  then show ?thesis by (simp add: get_stats_def Let_def)
next
  case False
  have bound: "length (latencies m) \<le> 2 ^ 53" using assms(2) by (simp add: metrics_bounded_def MAX_LATENCIES_def)
  have pct: "\<exists>x. calculate_percentile fl (fl p) m = Return x" if "0 \<le> p" "p \<le> 1" for p
    using calculate_percentile_nth(1) [OF assms(1) _ _ False bound, of "fl p"]
      ieee_nonneg [OF assms(1) that(1)] ieee_mono [OF assms(1) that(2)] ieee_of_nat [OF assms(1), of 1] by auto
  from pct [of "50 / 100"] pct [of "95 / 100"] pct [of "99 / 100"] show ?thesis
    by (auto simp: get_stats_def Let_def)
qed

lemma calculate_qps_nonneg:
  assumes "ieee_rounding fl" "sorted (request_timestamps m)"
  shows "0 \<le> calculate_qps fl m"
proof (cases "length (request_timestamps m) < 2")
  case True
  then show ?thesis by (simp add: calculate_qps_def)
next
  case False
  let ?ts = "request_timestamps m"
  have "hd ?ts \<le> last ?ts"
    using assms(2) False by (cases ?ts) auto
  then have "0 \<le> trunc_div (last ?ts - hd ?ts) 1000000"
    by (simp add: trunc_div_nonneg pos_imp_zdiv_nonneg_iff)
  then have "0 \<le> fl (real_of_int (trunc_div (last ?ts - hd ?ts) 1000000))"
    by (intro ieee_nonneg [OF assms(1)]) simp
  moreover have "0 \<le> fl (real (length ?ts - 1))" by (intro ieee_nonneg [OF assms(1)]) simp
  ultimately have "0 \<le> fl (real (length ?ts - 1)) / fl (real_of_int (trunc_div (last ?ts - hd ?ts) 1000000))"
    by simp
  then have "0 \<le> fl (fl (fl (real (length ?ts - 1)) / fl (real_of_int (trunc_div (last ?ts - hd ?ts) 1000000))) * 1000)"
    by (intro ieee_nonneg [OF assms(1)] mult_nonneg_nonneg) auto
  with False show ?thesis by (simp add: calculate_qps_def Let_def)
qed

text \<open>C36: For a collector with ordered timestamps and at most a thousand latencies, which every
  sequence of recorded requests leaves behind, \<open>get_stats\<close> completes without undefined behaviour
  under any IEEE rounding, reports the counters, a non-negative rate, and percentiles that are
  recorded latencies in increasing order.\<close>

theorem get_stats_consistent:
  assumes "ieee_rounding fl" "sorted (request_timestamps m)" "length (latencies m) \<le> MAX_LATENCIES"
  shows "\<exists>s. get_stats fl now m = Return s \<and> stat_total_requests s = total_requests m \<and>
    stat_total_errors s = total_errors m \<and> 0 \<le> current_qps s \<and>
    (latencies m \<noteq> [] \<longrightarrow> {p50_latency_ms s, p95_latency_ms s, p99_latency_ms s} \<subseteq> set (latencies m)) \<and>
    p50_latency_ms s \<le> p95_latency_ms s \<and> p95_latency_ms s \<le> p99_latency_ms s"
proof (cases "latencies m = []")
  case True
  then show ?thesis
    using calculate_qps_nonneg [OF assms(1,2)] by (simp add: get_stats_def Let_def)
next
  case False
  let ?n = "length (latencies m)" and ?ys = "sort (latencies m)"
  let ?i = "\<lambda>p. percentile_index fl (fl p) ?n"
  have bound: "?n \<le> 2 ^ 53" using assms(3) by (simp add: MAX_LATENCIES_def)
  have unit: "0 \<le> fl p" "fl p \<le> 1" if "0 \<le> p" "p \<le> 1" for p
    using ieee_nonneg [OF assms(1) that(1)] ieee_mono [OF assms(1) that(2)] ieee_of_nat [OF assms(1), of 1] by auto
  have pct: "calculate_percentile fl (fl p) m = Return (?ys ! ?i p)" "?i p < ?n" if "0 \<le> p" "p \<le> 1" for p
    using calculate_percentile_nth [OF assms(1) unit [OF that] False bound] by auto
  have mono: "?ys ! ?i p \<le> ?ys ! ?i q" if "0 \<le> p" "p \<le> q" "q \<le> 1" for p q
  proof -
    have "?i p \<le> ?i q"
      by (rule percentile_index_mono [OF assms(1) ieee_mono [OF assms(1) that(2)] bound])
    moreover have "?i q < length ?ys" using pct(2) [of q] that by simp
    ultimately show ?thesis by (intro sorted_nth_mono) simp_all
  qed
  have mem: "?ys ! ?i p \<in> set (latencies m)" if "0 \<le> p" "p \<le> 1" for p
    using pct(2) [OF that] nth_mem [of "?i p" ?ys] by simp
  show ?thesis
    using calculate_qps_nonneg [OF assms(1,2)] False mem [of "50 / 100"] mem [of "95 / 100"] mem [of "99 / 100"]
      mono [of "50 / 100" "95 / 100"] mono [of "95 / 100" "99 / 100"]
      pct(1) [of "50 / 100"] pct(1) [of "95 / 100"] pct(1) [of "99 / 100"]
    by (simp add: get_stats_def Let_def)
qed

theorem get_stats_consistent_witness:
  "\<exists>s. get_stats (\<lambda>x. x) 5 (record_all (Metrics_new 0) [(0, 5), (1, 7)]) = Return s \<and>
     stat_total_requests s = 2"
proof -
  let ?m = "record_all (Metrics_new 0) [(0, 5), (1, 7)]"
  have "latencies ?m = [5, 7]" "request_timestamps ?m = [0, 1]" "total_requests ?m = 2"
    by (simp_all add: record_all_def record_request_def Metrics_new_def MAX_LATENCIES_def Let_def seconds_def)
  then show ?thesis
    using get_stats_consistent [OF ieee_rounding_id, of ?m 5] by (auto simp: MAX_LATENCIES_def)
qed

end
