(* ===== verification/Password_Generator.thy ===== *)
theory Password_Generator
  imports Prelude "HOL-Library.Multiset"
begin

text \<open>
  \<open>password_generator.cpp\<close>. The random engine is a state \<open>'g\<close> with two functions of the standard
  library: \<open>draw g n\<close> is a \<open>uniform_int_distribution(0, n)\<close> and \<open>shuffle\<close> is \<open>std::shuffle\<close>; what is
  used of them is that a draw is at most \<open>n\<close> and a shuffle is a permutation. \<open>std::log2\<close> is the
  parameter \<open>log2\<close>.
\<close>

section \<open>Model\<close>

record 'g rng =
  draw :: "'g \<Rightarrow> nat \<Rightarrow> nat \<times> 'g"
  shuffle :: "'g \<Rightarrow> string \<Rightarrow> string \<times> 'g"

definition UPPERCASE :: string where "UPPERCASE = ''ABCDEFGHIJKLMNOPQRSTUVWXYZ''"
definition LOWERCASE :: string where "LOWERCASE = ''abcdefghijklmnopqrstuvwxyz''"
definition DIGITS :: string where "DIGITS = ''0123456789''"
definition SYMBOLS :: string where "SYMBOLS = ''!@#$%^&*()_+-=[]{}|;:,.<>?''"
definition CONFUSING_UPPER :: string where "CONFUSING_UPPER = ''IO''"
definition CONFUSING_LOWER :: string where "CONFUSING_LOWER = ''ilo''"
definition CONFUSING_DIGITS :: string where "CONFUSING_DIGITS = ''01''"

record PasswordConfig =
  pw_length :: int
  uppercase :: bool
  lowercase :: bool
  digits :: bool
  symbols :: bool
  exclude_similar :: bool

definition PasswordConfig_default :: PasswordConfig where
  "PasswordConfig_default = \<lparr>pw_length = 16, uppercase = True, lowercase = True, digits = True,
     symbols = True, exclude_similar = True\<rparr>"

record PasswordResult =
  password :: string
  result_length :: int
  entropy :: double
  strength :: string

record CharacterSets =
  pool :: string
  required_chars :: "string list"

definition addSet :: "PasswordConfig \<Rightarrow> string \<Rightarrow> string option \<Rightarrow> bool \<Rightarrow> CharacterSets \<Rightarrow> CharacterSets" where
  "addSet config chars confusable enabled sets =
     (if \<not> enabled then sets
      else let filtered = (case confusable of
                 Some cs \<Rightarrow> if exclude_similar config then foldl (\<lambda>s c. removeAll c s) chars cs else chars
               | None \<Rightarrow> chars);
               sets = sets\<lparr>pool := pool sets @ filtered\<rparr>
           in if filtered \<noteq> [] then sets\<lparr>required_chars := required_chars sets @ [filtered]\<rparr> else sets)"

definition build_character_sets :: "PasswordConfig \<Rightarrow> CharacterSets" where
  "build_character_sets config =
     (let sets = \<lparr>pool = [], required_chars = []\<rparr>;
          sets = addSet config UPPERCASE (Some CONFUSING_UPPER) (uppercase config) sets;
          sets = addSet config LOWERCASE (Some CONFUSING_LOWER) (lowercase config) sets;
          sets = addSet config DIGITS (Some CONFUSING_DIGITS) (digits config) sets
      in addSet config SYMBOLS None (symbols config) sets)"

definition calculate_entropy :: "(real \<Rightarrow> real) \<Rightarrow> (real \<Rightarrow> real) \<Rightarrow> string \<Rightarrow> int \<Rightarrow> double" where
  "calculate_entropy fl log2 pw pool_size =
     (if pw = [] \<or> pool_size = 0 then 0
      else fl (fl (real (length pw)) * log2 (real_of_int pool_size)))"

definition get_strength_rating :: "double \<Rightarrow> string" where
  "get_strength_rating ent =
     (if ent < 28 then ''very_weak'' else if ent < 36 then ''weak'' else if ent < 60 then ''fair''
      else if ent < 80 then ''strong'' else ''very_strong'')"

definition validate_config :: "PasswordConfig \<Rightarrow> string option" where
  \<comment> \<open>the error message, or None for a valid configuration\<close>
  "validate_config config =
     (if pw_length config < 8 then Some ''Password length must be at least 8 characters''
      else if pw_length config > 128 then Some ''Password length must not exceed 128 characters''
      else if \<not> uppercase config \<and> \<not> lowercase config \<and> \<not> digits config \<and> \<not> symbols config
      then Some ''At least one character type must be enabled''
      else None)"

definition char_at :: "string \<Rightarrow> nat \<Rightarrow> char outcome" where
  "char_at s i = (if i < length s then Return (s ! i) else Undefined)"

fun draw_chars :: "'g rng \<Rightarrow> string \<Rightarrow> nat \<Rightarrow> string \<Rightarrow> 'g \<Rightarrow> (string \<times> 'g) outcome" where
  "draw_chars rng pl 0 pw g = Return (pw, g)"
| "draw_chars rng pl (Suc n) pw g =
     (let (i, g) = draw rng g (length pl - 1) in
      obind (char_at pl i) (\<lambda>c. draw_chars rng pl n (pw @ [c]) g))"

fun place_required :: "'g rng \<Rightarrow> nat \<Rightarrow> string list \<Rightarrow> string \<Rightarrow> 'g \<Rightarrow> (string \<times> 'g) outcome" where
  "place_required rng n [] pw g = Return (pw, g)"
| "place_required rng n (char_set # rest) pw g =
     (if char_set = [] then place_required rng n rest pw g
      else let (pos, g) = draw rng g (n - 1); (i, g) = draw rng g (length char_set - 1) in
        if pos < length pw
        then obind (char_at char_set i) (\<lambda>c. place_required rng n rest (pw[pos := c]) g)
        else Undefined)"

definition generate :: "'g rng \<Rightarrow> (real \<Rightarrow> real) \<Rightarrow> (real \<Rightarrow> real) \<Rightarrow> PasswordConfig \<Rightarrow> 'g \<Rightarrow>
    (PasswordResult \<times> 'g) outcome" where
  "generate rng fl log2 config g =
     (case validate_config config of
        Some error_message \<Rightarrow> Throw (Invalid_argument error_message)
      | None \<Rightarrow>
          let sets = build_character_sets config in
          if pool sets = [] then Throw (Invalid_argument ''Character pool is empty'')
          else obind (draw_chars rng (pool sets) (nat (pw_length config)) [] g) (\<lambda>(pw, g).
               obind (place_required rng (nat (pw_length config)) (required_chars sets) pw g) (\<lambda>(pw, g).
                 let (pw, g) = shuffle rng g pw;
                     ent = calculate_entropy fl log2 pw (cast_int (int (length (pool sets))))
                 in Return (\<lparr>password = pw, result_length = cast_int (int (length pw)), entropy = ent,
                             strength = get_strength_rating ent\<rparr>, g))))"

fun generate_loop :: "'g rng \<Rightarrow> (real \<Rightarrow> real) \<Rightarrow> (real \<Rightarrow> real) \<Rightarrow> PasswordConfig \<Rightarrow> nat \<Rightarrow> 'g \<Rightarrow>
    (PasswordResult list \<times> 'g) outcome" where
  "generate_loop rng fl log2 config 0 g = Return ([], g)"
| "generate_loop rng fl log2 config (Suc n) g =
     obind (generate rng fl log2 config g) (\<lambda>(r, g).
     obind (generate_loop rng fl log2 config n g) (\<lambda>(rs, g). Return (r # rs, g)))"

definition generate_batch :: "'g rng \<Rightarrow> (real \<Rightarrow> real) \<Rightarrow> (real \<Rightarrow> real) \<Rightarrow> PasswordConfig \<Rightarrow> int \<Rightarrow> 'g \<Rightarrow>
    (PasswordResult list \<times> 'g) outcome" where
  "generate_batch rng fl log2 config cnt g =
     (if cnt \<le> 0 then Throw (Invalid_argument ''Count must be positive'')
      else generate_loop rng fl log2 config (nat cnt) g)"

section \<open>Drawing and placing\<close>

definition rng_ok :: "'g rng \<Rightarrow> bool" where
  "rng_ok rng \<longleftrightarrow> (\<forall>g n. fst (draw rng g n) \<le> n) \<and> (\<forall>g s. mset (fst (shuffle rng g s)) = mset s)"

lemma draw_index: "rng_ok rng \<Longrightarrow> draw rng g (length s - 1) = (i, g') \<Longrightarrow> s \<noteq> [] \<Longrightarrow> i < length s"
proof -
  assume "rng_ok rng" "draw rng g (length s - 1) = (i, g')" "s \<noteq> []"
  then have "i \<le> length s - 1" "0 < length s" unfolding rng_ok_def by (metis fst_conv, simp)
  then show ?thesis by linarith
qed

lemma draw_chars_ok:
  assumes "rng_ok rng" "pl \<noteq> []"
  shows "\<exists>pw' g'. draw_chars rng pl n pw g = Return (pw', g') \<and> length pw' = length pw + n \<and>
    set pw' \<subseteq> set pw \<union> set pl"
proof (induction n arbitrary: pw g)
  case 0
  then show ?case by simp
next
  case (Suc n)
  obtain i g1 where d: "draw rng g (length pl - 1) = (i, g1)" by fastforce
  with draw_index [OF assms(1) d assms(2)] have "char_at pl i = Return (pl ! i)" "pl ! i \<in> set pl"
    by (simp_all add: char_at_def)
  with Suc.IH [of "pw @ [pl ! i]" g1] d show ?case by auto
qed

lemma place_required_ok:
  assumes "rng_ok rng" "length pw = n" "0 < n"
  shows "\<exists>pw' g'. place_required rng n css pw g = Return (pw', g') \<and> length pw' = n \<and>
    set pw' \<subseteq> set pw \<union> set (concat css) \<and>
    (css \<noteq> [] \<and> last css \<noteq> [] \<longrightarrow> set pw' \<inter> set (last css) \<noteq> {})"
  using assms(2)
proof (induction css arbitrary: pw g)
  case Nil
  then show ?case by simp
next
  case (Cons cs css)
  show ?case
  proof (cases "cs = []")
    case True
    with Cons show ?thesis by auto
  next
    case False
    obtain pos g1 where d1: "draw rng g (n - 1) = (pos, g1)" by fastforce
    obtain i g2 where d2: "draw rng g1 (length cs - 1) = (i, g2)" by fastforce
    have pos: "pos < length pw" using draw_index [OF assms(1), of g pw pos g1] d1 Cons.prems assms(3) by auto
    have i: "char_at cs i = Return (cs ! i)" "cs ! i \<in> set cs"
      using draw_index [OF assms(1) d2 False] by (simp_all add: char_at_def)
    let ?pw = "pw[pos := cs ! i]"
    obtain pw' g' where IH: "place_required rng n css ?pw g2 = Return (pw', g')" "length pw' = n"
      "set pw' \<subseteq> set ?pw \<union> set (concat css)" "css \<noteq> [] \<and> last css \<noteq> [] \<longrightarrow> set pw' \<inter> set (last css) \<noteq> {}"
      using Cons.IH [of ?pw g2] Cons.prems by auto
    have "set ?pw \<subseteq> insert (cs ! i) (set pw)" by (rule set_update_subset_insert)
    with IH(3) i have "set pw' \<subseteq> set pw \<union> set (concat (cs # css))" by auto
    moreover have "set pw' \<inter> set (last (cs # css)) \<noteq> {}" if "last (cs # css) \<noteq> []"
    proof (cases "css = []")
      case True
      with IH(1) have "pw' = ?pw" by simp
      moreover have "cs ! i \<in> set ?pw" using pos by (rule set_update_memI)
      ultimately show ?thesis using True i by auto
    next
      case False
      with IH(4) that show ?thesis by simp
    qed
    ultimately show ?thesis using IH False d1 d2 pos i by simp
  qed
qed

section \<open>Character classes\<close>

definition class_of :: "PasswordConfig \<Rightarrow> string \<Rightarrow> string \<Rightarrow> string" where
  "class_of config chars confusing = filter (\<lambda>c. \<not> (exclude_similar config \<and> c \<in> set confusing)) chars"

definition classes :: "PasswordConfig \<Rightarrow> string list" where
  \<comment> \<open>the enabled classes without look-alikes, in the order they are placed\<close>
  "classes config =
     (if uppercase config then [class_of config UPPERCASE CONFUSING_UPPER] else []) @
     (if lowercase config then [class_of config LOWERCASE CONFUSING_LOWER] else []) @
     (if digits config then [class_of config DIGITS CONFUSING_DIGITS] else []) @
     (if symbols config then [class_of config SYMBOLS []] else [])"

lemma removeAll_fold: "foldl (\<lambda>s c. removeAll c s) chars cs = filter (\<lambda>c. c \<notin> set cs) chars"
proof (induction cs arbitrary: chars)
  case Nil
  then show ?case by simp
next
  case (Cons d cs)
  then have "foldl (\<lambda>s c. removeAll c s) chars (d # cs) = filter (\<lambda>c. c \<notin> set cs) (removeAll d chars)" by simp
  also have "\<dots> = filter (\<lambda>c. c \<notin> set (d # cs)) chars"
    by (induction chars) auto
  finally show ?case .
qed

lemma class_nonempty:
  "class_of config UPPERCASE CONFUSING_UPPER \<noteq> []" "class_of config LOWERCASE CONFUSING_LOWER \<noteq> []"
  "class_of config DIGITS CONFUSING_DIGITS \<noteq> []" "class_of config SYMBOLS [] \<noteq> []"
  by (auto simp: class_of_def UPPERCASE_def LOWERCASE_def DIGITS_def SYMBOLS_def CONFUSING_UPPER_def
      CONFUSING_LOWER_def CONFUSING_DIGITS_def)

lemma addSet_class:
  "class_of config chars cs \<noteq> [] \<Longrightarrow> addSet config chars (Some cs) en sets =
     (if en then \<lparr>pool = pool sets @ class_of config chars cs,
                  required_chars = required_chars sets @ [class_of config chars cs]\<rparr> else sets)"
  "class_of config chars [] \<noteq> [] \<Longrightarrow> addSet config chars None en sets =
     (if en then \<lparr>pool = pool sets @ class_of config chars [],
                  required_chars = required_chars sets @ [class_of config chars []]\<rparr> else sets)"
  by (auto simp: addSet_def class_of_def removeAll_fold Let_def)

lemma build_character_sets_eq:
  "build_character_sets config = \<lparr>pool = concat (classes config), required_chars = classes config\<rparr>"
  unfolding build_character_sets_def Let_def
  by (simp add: addSet_class class_nonempty classes_def)

lemma classes_nonempty: "cs \<in> set (classes config) \<Longrightarrow> cs \<noteq> []"
  using class_nonempty [of config] by (auto simp: classes_def split: if_splits)

lemma valid_classes: "validate_config config = None \<Longrightarrow> classes config \<noteq> []"
  by (auto simp: validate_config_def classes_def split: if_splits)

lemma classes_similar:
  "exclude_similar config \<Longrightarrow> c \<in> set (concat (classes config)) \<Longrightarrow> c \<notin> set (CONFUSING_UPPER @ CONFUSING_LOWER @ CONFUSING_DIGITS)"
  by (auto simp: classes_def class_of_def UPPERCASE_def LOWERCASE_def DIGITS_def SYMBOLS_def
      CONFUSING_UPPER_def CONFUSING_LOWER_def CONFUSING_DIGITS_def split: if_splits)

definition good_password :: "PasswordConfig \<Rightarrow> PasswordResult \<Rightarrow> bool" where
  \<comment> \<open>the configured length, only enabled characters, the last enabled class represented\<close>
  "good_password config r \<longleftrightarrow>
     int (length (password r)) = pw_length config \<and> result_length r = pw_length config \<and>
     set (password r) \<subseteq> set (concat (classes config)) \<and>
     set (password r) \<inter> set (last (classes config)) \<noteq> {} \<and>
     (exclude_similar config \<longrightarrow>
        set (password r) \<inter> set (CONFUSING_UPPER @ CONFUSING_LOWER @ CONFUSING_DIGITS) = {}) \<and>
     strength r = get_strength_rating (entropy r)"

lemma generate_good:
  assumes "rng_ok rng" "validate_config config = None"
  shows "\<exists>r g'. generate rng fl log2 config g = Return (r, g') \<and> good_password config r"
proof -
  let ?n = "nat (pw_length config)" and ?pool = "concat (classes config)"
  have n: "8 \<le> pw_length config" "pw_length config \<le> 128"
    using assms(2) by (auto simp: validate_config_def split: if_splits)
  have cs: "classes config \<noteq> []" by (rule valid_classes [OF assms(2)])
  then have last: "last (classes config) \<noteq> []" using classes_nonempty last_in_set by blast
  with cs have pool: "?pool \<noteq> []" by auto
  obtain pw g1 where 1: "draw_chars rng ?pool ?n [] g = Return (pw, g1)" "length pw = ?n" "set pw \<subseteq> set ?pool"
    using draw_chars_ok [OF assms(1) pool, of ?n "[]" g] by auto
  have "0 < ?n" using n by simp
  from place_required_ok [OF assms(1) 1(2) this, of "classes config" g1] cs last
  obtain pw2 g2 where 2: "place_required rng ?n (classes config) pw g1 = Return (pw2, g2)" "length pw2 = ?n"
    "set pw2 \<subseteq> set pw \<union> set ?pool" "set pw2 \<inter> set (last (classes config)) \<noteq> {}" by blast
  obtain pw3 g3 where 3: "shuffle rng g2 pw2 = (pw3, g3)" by fastforce
  then have "mset pw3 = mset pw2" using assms(1) unfolding rng_ok_def by (metis fst_conv)
  then have 4: "length pw3 = ?n" "set pw3 = set pw2" using 2(2) by (metis size_mset, metis set_mset_mset)
  have sub: "set pw3 \<subseteq> set ?pool" using 1(3) 2(3) 4(2) by blast
  have "cast_int (int (length pw3)) = pw_length config" using 4(1) n by (simp add: cast_int_small)
  moreover have "exclude_similar config \<longrightarrow>
      set pw3 \<inter> set (CONFUSING_UPPER @ CONFUSING_LOWER @ CONFUSING_DIGITS) = {}"
    using sub classes_similar by blast
  ultimately show ?thesis
    using n 1(1) 2 3 4 sub pool
    by (simp add: generate_def assms(2) build_character_sets_eq good_password_def Let_def)
qed

section \<open>Properties\<close>

text \<open>C19: \<open>generate\<close> returns a password for exactly the valid configurations, with any random engine
  that respects its ranges: no index leaves a character set, the password has the configured length,
  only characters of enabled classes, no look-alikes when they are excluded, and at least one
  character of the last enabled class. An invalid configuration is refused with the validator's
  message as \<open>std::invalid_argument\<close>; the empty pool error cannot occur.\<close>

theorem generate_correct:
  assumes "rng_ok rng"
  shows "case validate_config config of
      None \<Rightarrow> \<exists>r g'. generate rng fl log2 config g = Return (r, g') \<and> good_password config r
    | Some m \<Rightarrow> generate rng fl log2 config g = Throw (Invalid_argument m)"
  using generate_good [OF assms] by (auto simp: generate_def split: option.splits)

definition zero_rng :: "'g rng" where
  "zero_rng = \<lparr>draw = (\<lambda>g n. (0, g)), shuffle = (\<lambda>g s. (s, g))\<rparr>"

lemma zero_rng_ok: "rng_ok zero_rng"
  by (simp add: rng_ok_def zero_rng_def)

theorem generate_correct_witness:
  "\<exists>r g'. generate zero_rng (\<lambda>x. x) (log 2) PasswordConfig_default () = Return (r, g') \<and>
     good_password PasswordConfig_default r"
proof -
  have "validate_config PasswordConfig_default = None"
    by (simp add: validate_config_def PasswordConfig_default_def)
  then show ?thesis
    using generate_correct [OF zero_rng_ok, where config = PasswordConfig_default and fl = "\<lambda>x. x" and ?log2.0 = "log 2" and g = "()"]
    by simp
qed

text \<open>The required characters do not guarantee every class: the positions are drawn independently, so
  a later class may overwrite an earlier one. There is a permitted random engine for which the
  default configuration, with all four classes enabled, gives a password without any lower-case
  letter and without any digit.\<close>

lemma required_class_missing:
  "\<exists>r. rng_ok (zero_rng :: unit rng) \<and>
     generate zero_rng (\<lambda>x. x) (log 2) PasswordConfig_default () = Return (r, ()) \<and>
     set (password r) \<inter> set LOWERCASE = {} \<and> set (password r) \<inter> set DIGITS = {}"
proof -
  have "classes PasswordConfig_default =
      [''ABCDEFGHJKLMNPQRSTUVWXYZ'', ''abcdefghjkmnpqrstuvwxyz'', ''23456789'', SYMBOLS]"
    by (simp add: classes_def class_of_def PasswordConfig_default_def UPPERCASE_def LOWERCASE_def DIGITS_def
        SYMBOLS_def CONFUSING_UPPER_def CONFUSING_LOWER_def CONFUSING_DIGITS_def)
  then have "\<exists>r. generate zero_rng (\<lambda>x. x) (log 2) PasswordConfig_default () = Return (r, ()) \<and>
      password r = CHR ''!'' # replicate 15 (CHR ''A'')"
    by (simp add: generate_def build_character_sets_eq validate_config_def PasswordConfig_default_def zero_rng_def
        char_at_def SYMBOLS_def numeral_eq_Suc Let_def)
  then show ?thesis by (auto simp: zero_rng_ok LOWERCASE_def DIGITS_def)
qed

lemma generate_loop_ok:
  assumes "rng_ok rng" "validate_config config = None"
  shows "\<exists>rs g'. generate_loop rng fl log2 config n g = Return (rs, g') \<and> length rs = n \<and>
    (\<forall>r\<in>set rs. good_password config r)"
proof (induction n arbitrary: g)
  case 0
  then show ?case by simp
next
  case (Suc n)
  obtain r g1 where "generate rng fl log2 config g = Return (r, g1)" "good_password config r"
    using generate_good [OF assms] by blast
  moreover obtain rs g2 where "generate_loop rng fl log2 config n g1 = Return (rs, g2)" "length rs = n"
    "\<forall>r\<in>set rs. good_password config r" using Suc.IH by blast
  ultimately show ?case by simp
qed

text \<open>A batch of a positive number of passwords of a valid configuration has exactly that many
  results, each a good password; a count below one or an invalid configuration is refused as
  \<open>std::invalid_argument\<close>.\<close>

lemma generate_batch_correct:
  assumes "rng_ok rng"
  shows "if 0 < cnt \<and> validate_config config = None
    then \<exists>rs g'. generate_batch rng fl log2 config cnt g = Return (rs, g') \<and> int (length rs) = cnt \<and>
           (\<forall>r\<in>set rs. good_password config r)
    else \<exists>m. generate_batch rng fl log2 config cnt g = Throw (Invalid_argument m)"
proof (cases "0 < cnt \<and> validate_config config = None")
  case True
  with generate_loop_ok [OF assms, of config fl log2 "nat cnt" g] show ?thesis
    by (auto simp: generate_batch_def)
next
  case False
  show ?thesis
  proof (cases "cnt \<le> 0")
    case True
    then show ?thesis by (simp add: generate_batch_def)
  next
    case pos: False
    with False obtain m where "validate_config config = Some m" by auto
    moreover from pos obtain n where "nat cnt = Suc n" by (cases "nat cnt") auto
    ultimately show ?thesis using pos by (simp add: generate_batch_def generate_def)
  qed
qed

section \<open>Strength\<close>

definition log2_ok :: "(real \<Rightarrow> real) \<Rightarrow> bool" where
  \<comment> \<open>the library's logarithm is monotone on positive numbers and exact at powers of two\<close>
  "log2_ok log2 \<longleftrightarrow> (\<forall>x y. 0 < x \<longrightarrow> x \<le> y \<longrightarrow> log2 x \<le> log2 y) \<and> (\<forall>k::nat. log2 (2 ^ k) = real k)"

fun rating_rank :: "string \<Rightarrow> nat" where
  "rating_rank r = length (takeWhile (\<lambda>x. x \<noteq> r) [''very_weak'', ''weak'', ''fair'', ''strong'', ''very_strong''])"

lemma rating_rank_eq:
  "rating_rank (get_strength_rating e) =
     (if e < 28 then 0 else if e < 36 then 1 else if e < 60 then 2 else if e < 80 then 3 else 4)"
  by (simp add: get_strength_rating_def)

lemma rating_mono: "e \<le> e' \<Longrightarrow> rating_rank (get_strength_rating e) \<le> rating_rank (get_strength_rating e')"
  unfolding rating_rank_eq by auto

text \<open>The strength rating never decreases when a password gets longer or its pool of characters
  larger, and a password of at least 16 characters from a pool of at least 32 is rated very
  strong, whatever the rounding.\<close>

lemma strength_monotone:
  assumes "ieee_rounding fl" "log2_ok log2"
    and "length pw \<le> length pw'" "length pw' \<le> 128" "1 \<le> n" "n \<le> n'"
  shows "rating_rank (get_strength_rating (calculate_entropy fl log2 pw n)) \<le>
      rating_rank (get_strength_rating (calculate_entropy fl log2 pw' n')) \<and>
    (16 \<le> length pw \<and> 32 \<le> n \<longrightarrow> get_strength_rating (calculate_entropy fl log2 pw n) = ''very_strong'')"
proof -
  have "log2 (2 ^ 0) = real 0" using assms(2) unfolding log2_ok_def by blast
  then have l1: "log2 1 = 0" by simp
  have mono: "log2 x \<le> log2 y" if "0 < x" "x \<le> y" for x y using assms(2) that unfolding log2_ok_def by blast
  have logs: "0 \<le> log2 (real_of_int n)" "log2 (real_of_int n) \<le> log2 (real_of_int n')"
    using mono [of 1 "real_of_int n"] mono [of "real_of_int n" "real_of_int n'"] l1 assms(5,6) by auto
  have len: "fl (real (length pw)) = real (length pw)" "fl (real (length pw')) = real (length pw')"
    using assms(3,4) by (auto intro!: ieee_of_nat [OF assms(1)])
  have ent: "calculate_entropy fl log2 xs m = fl (real (length xs) * log2 (real_of_int m))"
    if "fl (real (length xs)) = real (length xs)" "1 \<le> m" for xs m
    using that ieee_zero [OF assms(1)] by (simp add: calculate_entropy_def)
  have "real (length pw) * log2 (real_of_int n) \<le> real (length pw') * log2 (real_of_int n')"
    using assms(3) logs by (intro mult_mono) auto
  then have le: "calculate_entropy fl log2 pw n \<le> calculate_entropy fl log2 pw' n'"
    using ent len assms(5,6) by (auto intro: ieee_mono [OF assms(1)])
  have strong: "80 \<le> calculate_entropy fl log2 pw n" if "16 \<le> length pw" "32 \<le> n"
  proof -
    have "log2 (2 ^ 5) = real 5" using assms(2) unfolding log2_ok_def by blast
    then have "5 \<le> log2 (real_of_int n)" using mono [of 32 "real_of_int n"] that(2) by simp
    then have "16 * 5 \<le> real (length pw) * log2 (real_of_int n)" using that(1) by (intro mult_mono) auto
    then have "fl (real 80) \<le> fl (real (length pw) * log2 (real_of_int n))"
      by (intro ieee_mono [OF assms(1)]) simp
    then show ?thesis using ieee_of_nat [OF assms(1), of 80] ent [OF len(1) assms(5)] by simp
  qed
  show ?thesis using rating_mono [OF le] strong by (auto simp: get_strength_rating_def)
qed

lemma log2_ok_log: "log2_ok (log 2)"
  by (auto simp: log2_ok_def)

end
