(* ===== verification/Std_Parse.thy ===== *)
theory Std_Parse
  imports Prelude
begin

text \<open>
  The number parsers \<open>std::stoi\<close>, \<open>std::stoll\<close> and \<open>std::stoull\<close>: leading blanks, an optional sign,
  the longest run of decimal digits, anything after it ignored.
\<close>

definition is_space :: "char \<Rightarrow> bool" where
  "is_space c \<longleftrightarrow> c \<in> {CHR '' '', CHR 0x09, CHR 0x0A, CHR 0x0B, CHR 0x0C, CHR 0x0D}"

definition is_digit :: "char \<Rightarrow> bool" where
  "is_digit c \<longleftrightarrow> 48 \<le> (of_char c :: nat) \<and> (of_char c :: nat) \<le> 57"

definition digits_value :: "string \<Rightarrow> nat" where
  "digits_value ds = foldl (\<lambda>n c. 10 * n + (of_char c - 48)) 0 ds"

fun sign_split :: "string \<Rightarrow> bool \<times> string" where
  "sign_split (c # s) = (if c = CHR ''-'' then (True, s) else if c = CHR ''+'' then (False, s) else (False, c # s))"
| "sign_split [] = (False, [])"

definition parse_number :: "string \<Rightarrow> (bool \<times> nat) option" where
  \<comment> \<open>sign and magnitude, or None when there is no digit\<close>
  "parse_number s =
     (let (neg, rest) = sign_split (dropWhile is_space s); ds = takeWhile is_digit rest
      in if ds = [] then None else Some (neg, digits_value ds))"

definition signed_value :: "bool \<times> nat \<Rightarrow> int" where
  "signed_value p = (if fst p then - int (snd p) else int (snd p))"

definition sto_signed :: "string \<Rightarrow> nat \<Rightarrow> string \<Rightarrow> int outcome" where
  "sto_signed name bits s =
     (case parse_number s of
        None \<Rightarrow> Throw (Invalid_argument name)
      | Some p \<Rightarrow>
          if - (2 ^ (bits - 1)) \<le> signed_value p \<and> signed_value p < 2 ^ (bits - 1)
          then Return (signed_value p) else Throw (Out_of_range name))"

definition stoi :: "string \<Rightarrow> int outcome" where
  "stoi s = sto_signed ''stoi'' 32 s"

definition stoll :: "string \<Rightarrow> int outcome" where
  "stoll s = sto_signed ''stoll'' 64 s"

definition stoull :: "string \<Rightarrow> u64 outcome" where
  \<comment> \<open>a minus sign negates the unsigned result\<close>
  "stoull s =
     (case parse_number s of
        None \<Rightarrow> Throw (Invalid_argument ''stoull'')
      | Some (neg, n) \<Rightarrow>
          if n < 2 ^ 64 then Return (if neg then - of_nat n else of_nat n)
          else Throw (Out_of_range ''stoull''))"

section \<open>Printing and parsing\<close>

lemma of_char_digit: "d < 10 \<Longrightarrow> (of_char (char_of (48 + d) :: char) :: nat) = 48 + d"
  by simp

lemma nat_digits_digit: "c \<in> set (nat_digits n) \<Longrightarrow> is_digit c"
proof (induction n rule: nat_digits.induct)
  case (1 n)
  show ?case
  proof (cases "n < 10")
    case True
    with "1.prems" show ?thesis by (simp add: nat_digits.simps [of n] is_digit_def)
  next
    case False
    with 1 show ?thesis by (auto simp: nat_digits.simps [of n] is_digit_def)
  qed
qed

lemma nat_digits_nonempty: "nat_digits n \<noteq> []"
  by (subst nat_digits.simps) simp

lemma digits_value_snoc: "digits_value (ds @ [c]) = 10 * digits_value ds + (of_char c - 48)"
  by (simp add: digits_value_def)

lemma digits_value_nat_digits: "digits_value (nat_digits n) = n"
proof (induction n rule: nat_digits.induct)
  case (1 n)
  show ?case
  proof (cases "n < 10")
    case True
    then show ?thesis by (simp add: nat_digits.simps [of n] digits_value_def)
  next
    case False
    with 1 have "digits_value (nat_digits n) = 10 * (n div 10) + n mod 10"
      by (simp add: nat_digits.simps [of n] digits_value_snoc)
    then show ?thesis by simp
  qed
qed

lemma digit_not_sign: "is_digit c \<Longrightarrow> \<not> is_space c \<and> c \<noteq> CHR ''-'' \<and> c \<noteq> CHR ''+''"
  by (auto simp: is_digit_def is_space_def)

lemma parse_number_nat_digits: "parse_number (nat_digits n) = Some (False, n)"
proof -
  obtain c cs where c: "nat_digits n = c # cs" using nat_digits_nonempty by (cases "nat_digits n") auto
  then have "is_digit c" using nat_digits_digit [of c n] by simp
  with c have "sign_split (dropWhile is_space (nat_digits n)) = (False, nat_digits n)"
    using digit_not_sign by simp
  moreover have "takeWhile is_digit (nat_digits n) = nat_digits n"
    using nat_digits_digit by (simp add: takeWhile_eq_all_conv)
  ultimately show ?thesis
    by (simp only: parse_number_def Let_def prod.case nat_digits_nonempty digits_value_nat_digits if_False)
qed

lemma stoi_nat_digits: "n < 2 ^ 31 \<Longrightarrow> stoi (nat_digits n) = Return (int n)"
proof -
  assume n: "n < 2 ^ 31"
  then have "int n < int (2 ^ 31)" by (simp only: of_nat_less_iff)
  then show ?thesis
    by (simp add: stoi_def sto_signed_def parse_number_nat_digits signed_value_def)
qed

lemma stoi_Throw: "stoi s = Throw e \<Longrightarrow> e = Invalid_argument ''stoi'' \<or> e = Out_of_range ''stoi''"
  by (auto simp: stoi_def sto_signed_def split: option.splits if_splits)

lemma stoi_not_Undefined [simp]: "stoi s \<noteq> Undefined"
  by (auto simp: stoi_def sto_signed_def split: option.splits if_splits)

end
