(* ===== verification/Http.thy ===== *)
theory Http
  imports Lookup_Service Rate_Limiter Auth Metrics Password_Generator Std_Parse
begin

text \<open>
  What the request handlers share: requests and responses as the HTTP library presents them, the
  JSON response helpers of \<open>password_handler.h\<close>, the environment (every function of the outside
  world, as a record) and the mutable world the handlers work on. Clock readings are numbered: the
  \<open>n\<close>-th reading of a clock is \<open>clk n\<close>, and \<open>tick\<close> is the number of the next one.
\<close>

record Request =
  get_header_value :: "string \<Rightarrow> string" \<comment> \<open>empty when absent\<close>
  get_param_value :: "string \<Rightarrow> string"
  req_body :: string
  remote_addr :: string

record Response =
  status :: int \<comment> \<open>-1 until set; the library then sends 200\<close>
  content :: string
  content_type :: string
  headers :: "(string \<times> string) list"

definition Response_new :: Response where
  "Response_new = \<lparr>status = - 1, content = [], content_type = [], headers = []\<rparr>"

definition set_header :: "string \<Rightarrow> string \<Rightarrow> Response \<Rightarrow> Response" where
  "set_header k v res = res\<lparr>headers := headers res @ [(k, v)]\<rparr>"

definition set_content :: "string \<Rightarrow> string \<Rightarrow> Response \<Rightarrow> Response" where
  "set_content s t res = res\<lparr>content := s, content_type := t\<rparr>"

definition sent_status :: "Response \<Rightarrow> int" where
  "sent_status res = (if status res = - 1 then 200 else status res)"

record Env =
  env_fl :: "real \<Rightarrow> real"
  env_log2 :: "real \<Rightarrow> real"
  env_dump :: json_dump
  env_parse :: json_parse
  env_steady :: "nat \<Rightarrow> time_point"
  env_system :: "nat \<Rightarrow> time_point" \<comment> \<open>\<open>system_clock\<close>; it may be set back\<close>
  env_hrc :: "nat \<Rightarrow> time_point" \<comment> \<open>\<open>high_resolution_clock\<close>\<close>
  env_time :: "nat \<Rightarrow> int"
  env_rng :: "nat rng"
  env_sha256 :: "string \<Rightarrow> byte list"
  env_inet_pton :: "string \<Rightarrow> bool"
  env_getaddrinfo :: "string \<Rightarrow> bool"
  env_hash :: "string \<Rightarrow> u64"
  env_mmdb :: mmdb
  env_sqlite :: sqlite
  env_sched :: "nat \<Rightarrow> nat list" \<comment> \<open>the order in which the threads of a batch of \<open>n\<close> lookups run\<close>

record World =
  tick :: nat
  gen :: nat \<comment> \<open>state of the random engine\<close>
  geo_service :: IPGeoService
  mac_service :: MACLookupService

definition ticked :: "nat \<Rightarrow> World \<Rightarrow> World" where
  "ticked n w = w\<lparr>tick := tick w + n\<rparr>"

definition later :: "World \<Rightarrow> World \<Rightarrow> bool" where
  \<comment> \<open>only the clock and the random engine have moved\<close>
  "later w w' \<longleftrightarrow> tick w \<le> tick w' \<and> geo_service w' = geo_service w \<and> mac_service w' = mac_service w"

lemma later_ticked [simp]: "later w w" "later w (ticked n w)" "later w (ticked n (w\<lparr>gen := g\<rparr>))"
  by (simp_all add: later_def ticked_def)

lemma ticked_0 [simp]: "ticked 0 w = w"
  by (simp add: ticked_def)

lemma tick_ticked [simp]: "tick (ticked n w) = tick w + n"
  by (simp add: ticked_def)

section \<open>Response helpers\<close>

definition send_json_response :: "json_dump \<Rightarrow> json \<Rightarrow> int \<Rightarrow> Response \<Rightarrow> Response outcome" where
  "send_json_response dump data st res =
     obind (of_sum (dump data)) (\<lambda>s. Return (set_content s ''application/json'' (res\<lparr>status := st\<rparr>)))"

definition error_json :: "string \<Rightarrow> string \<Rightarrow> json" where
  "error_json err message = JObj (obj_of [(''error'', JStr err), (''message'', JStr message)])"

definition send_error_response :: "json_dump \<Rightarrow> int \<Rightarrow> string \<Rightarrow> string \<Rightarrow> Response \<Rightarrow> Response outcome" where
  "send_error_response dump st err message res =
     obind (of_sum (dump (error_json err message))) (\<lambda>s.
       Return (set_content s ''application/json'' (res\<lparr>status := st\<rparr>)))"

text \<open>
  What a handler leaves behind: the response, or the exception that escapes to the HTTP library, and in
  either case the state the statements before it produced.
\<close>

type_synonym 'm handled = "((exn + Response) \<times> 'm \<times> World) outcome"

definition conclude :: "Response outcome \<Rightarrow> 'm \<Rightarrow> 'm \<Rightarrow> World \<Rightarrow> 'm handled" where
  \<comment> \<open>the statements that end a handler: write the response, then turn \<open>before\<close> into \<open>after\<close>\<close>
  "conclude r before after w =
     (case r of
        Return res \<Rightarrow> Return (Inr res, after, w)
      | Throw e \<Rightarrow> Return (Inl e, before, w)
      | Undefined \<Rightarrow> Undefined)"

definition try_response :: "(exn \<Rightarrow> 'm handled) \<Rightarrow> Response outcome \<Rightarrow> 'm \<Rightarrow> World \<Rightarrow> 'm handled" where
  \<comment> \<open>the last statement of a \<open>try\<close> block: write the response, or run the \<open>catch\<close> clauses\<close>
  "try_response failed r m w =
     (case r of Return res \<Rightarrow> Return (Inr res, m, w) | Throw e \<Rightarrow> failed e | Undefined \<Rightarrow> Undefined)"

lemma conclude_Return [simp]: "conclude (Return res) before after w = Return (Inr res, after, w)"
  by (simp add: conclude_def)

section \<open>Serialisation of ASCII values\<close>

definition ascii :: "string \<Rightarrow> bool" where
  "ascii s \<longleftrightarrow> list_all (\<lambda>c. (of_char c :: nat) < 128) s"

fun json_ascii :: "json \<Rightarrow> bool" where
  "json_ascii (JStr s) \<longleftrightarrow> ascii s"
| "json_ascii (JArr js) \<longleftrightarrow> (\<forall>j\<in>set js. json_ascii j)"
| "json_ascii (JObj ms) \<longleftrightarrow> (\<forall>(k, j)\<in>set ms. ascii k \<and> json_ascii j)"
| "json_ascii _ \<longleftrightarrow> True"

definition dump_ok :: "json_dump \<Rightarrow> bool" where
  \<comment> \<open>the serialiser throws on invalid UTF-8 only, so not on ASCII\<close>
  "dump_ok dump \<longleftrightarrow> (\<forall>j. json_ascii j \<longrightarrow> (\<exists>s. dump j = Inr s))"

lemma ascii_append [simp]: "ascii (s @ t) \<longleftrightarrow> ascii s \<and> ascii t"
  by (simp add: ascii_def)

lemma ascii_digits: "list_all is_digit s \<Longrightarrow> ascii s"
  by (auto simp: ascii_def is_digit_def list_all_iff)

lemma ascii_nat_digits [simp]: "ascii (nat_digits n)"
  using nat_digits_digit by (auto simp: list_all_iff intro!: ascii_digits)

lemma ascii_int_to_string [simp]: "ascii (int_to_string v)"
proof -
  have "ascii (CHR ''-'' # nat_digits (nat (- v)))" using ascii_nat_digits by (simp add: ascii_def)
  then show ?thesis by (simp add: int_to_string_def)
qed

lemma obj_put_set: "set (obj_put k v obj) \<subseteq> insert (k, v) (set obj)"
  by (induction k v obj rule: obj_put.induct) auto

lemma ascii_obj_put: "json_ascii (JObj obj) \<Longrightarrow> ascii k \<Longrightarrow> json_ascii v \<Longrightarrow> json_ascii (JObj (obj_put k v obj))"
  using obj_put_set [of k v obj] by fastforce

lemma ascii_obj_of: "\<forall>(k, v)\<in>set ms. ascii k \<and> json_ascii v \<Longrightarrow> json_ascii (JObj (obj_of ms))"
proof -
  have "\<forall>(k, v)\<in>set ms. ascii k \<and> json_ascii v \<Longrightarrow> json_ascii (JObj obj) \<Longrightarrow>
      json_ascii (JObj (foldl (\<lambda>obj (k, v). obj_put k v obj) obj ms))" for obj
  proof (induction ms arbitrary: obj)
    case Nil
    then show ?case by simp
  next
    case (Cons m ms)
    obtain k v where m: "m = (k, v)" by (cases m)
    with Cons.prems have "json_ascii (JObj (obj_put k v obj))" by (intro ascii_obj_put) auto
    with Cons m show ?case by simp
  qed
  from this [of "[]"] show "\<forall>(k, v)\<in>set ms. ascii k \<and> json_ascii v \<Longrightarrow> json_ascii (JObj (obj_of ms))"
    unfolding obj_of_def by simp
qed

lemma dump_ascii: "dump_ok dump \<Longrightarrow> json_ascii j \<Longrightarrow> \<exists>s. dump j = Inr s"
  by (simp add: dump_ok_def)

lemma send_json_ok:
  "dump_ok dump \<Longrightarrow> json_ascii j \<Longrightarrow>
     \<exists>s. dump j = Inr s \<and> send_json_response dump j st res = Return (set_content s ''application/json'' (res\<lparr>status := st\<rparr>))"
  using dump_ascii [of dump j] by (auto simp: send_json_response_def)

lemma error_json_ascii: "ascii err \<Longrightarrow> ascii message \<Longrightarrow> json_ascii (error_json err message)"
  unfolding error_json_def by (rule ascii_obj_of) (simp add: ascii_def)

lemma send_error_ok:
  "dump_ok dump \<Longrightarrow> ascii err \<Longrightarrow> ascii message \<Longrightarrow>
     \<exists>s. dump (error_json err message) = Inr s \<and>
       send_error_response dump st err message res = Return (set_content s ''application/json'' (res\<lparr>status := st\<rparr>))"
  using dump_ascii [of dump "error_json err message"] by (auto simp: send_error_response_def error_json_ascii)

lemma send_defined [simp]:
  "send_json_response dump j st res \<noteq> Undefined" "send_error_response dump st err message res \<noteq> Undefined"
  by (cases "dump j"; simp add: send_json_response_def)
    (cases "dump (error_json err message)"; simp add: send_error_response_def)

lemma conclude_total:
  assumes "r \<noteq> Undefined"
  shows "\<exists>x m. conclude r before after w = Return (x, m, w) \<and> m \<in> {before, after}"
  using assms by (cases r) (auto simp: conclude_def)

section \<open>A concrete environment\<close>

definition toy_env :: Env where
  "toy_env = \<lparr>env_fl = (\<lambda>x. x), env_log2 = log 2, env_dump = (\<lambda>j. Inr ''json''),
     env_parse = (\<lambda>s. if s = ''big'' then Inr (JObj [(''length'', JInt 4294967312)])
        else if s = ''ips'' then Inr (JObj [(''ips'', JArr [JStr ''8.8.8.8'', JInt 1, JStr ''x''])])
        else Inl (Json_exception ''parse error'')),
     env_steady = (\<lambda>n. int n), env_system = (\<lambda>n. int n), env_hrc = (\<lambda>n. int n), env_time = (\<lambda>n. int n), env_rng = zero_rng,
     env_sha256 = toy_digest, env_inet_pton = (\<lambda>s. s = ''8.8.8.8''), env_getaddrinfo = (\<lambda>s. False),
     env_hash = (\<lambda>k. 0), env_mmdb = toy_mmdb, env_sqlite = toy_sqlite,
     env_sched = (\<lambda>n. rev [0..<n])\<rparr>"

definition toy_cache :: IPCache where
  "toy_cache = \<lparr>shards = [CacheShard_new 1000], shard_count = 1\<rparr>"

definition toy_world :: World where
  "toy_world = \<lparr>tick = 0, gen = 0,
     geo_service = \<lparr>city_db = \<lparr>mmdb_handle = 1, mm_is_open = True\<rparr>, asn_db = \<lparr>mmdb_handle = 1, mm_is_open = True\<rparr>,
        geo_cache = toy_cache\<rparr>,
     mac_service = \<lparr>oui_db = \<lparr>db = Some 1, lookup_stmt = Some 2, oui_is_open = True\<rparr>, mac_cache = toy_cache\<rparr>\<rparr>"

definition toy_request :: Request where
  "toy_request = \<lparr>get_header_value = (\<lambda>k. []), get_param_value = (\<lambda>k. []), req_body = [], remote_addr = ''10.0.0.1''\<rparr>"

lemma toy_env_ok: "dump_ok (env_dump toy_env)" "rng_ok (env_rng toy_env)"
  by (simp_all add: dump_ok_def toy_env_def zero_rng_ok)

end
