(* ===== verification/Password_Handler.thy ===== *)
theory Password_Handler
  imports Http
begin

text \<open>
  \<open>password_handler.cpp\<close>: the two password endpoints. They work on the server's metrics (the pointer
  \<open>metrics_\<close>) and on the world's clock and random engine; the state an exception leaves behind is
  what the statements before it did.
\<close>

section \<open>Model\<close>

record PasswordHandler =
  max_batch :: int

definition parseBoolParam :: "Request \<Rightarrow> string \<Rightarrow> bool \<Rightarrow> bool" where
  "parseBoolParam req key default_val =
     (let val = get_param_value req key in if val = [] then default_val else parseBoolString val)"

definition get_query_config :: "Request \<Rightarrow> PasswordConfig outcome" where
  "get_query_config req =
     (let length_param = get_param_value req ''length'' in
      obind (if length_param \<noteq> [] then stoi length_param else Return (pw_length PasswordConfig_default)) (\<lambda>n.
        Return \<lparr>pw_length = n,
          uppercase = parseBoolParam req ''uppercase'' True,
          lowercase = parseBoolParam req ''lowercase'' True,
          digits = parseBoolParam req ''digits'' True,
          symbols = parseBoolParam req ''symbols'' True,
          exclude_similar = parseBoolParam req ''exclude_similar'' True\<rparr>))"

definition password_json :: "PasswordResult \<Rightarrow> json" where
  "password_json r = JObj (obj_of [(''password'', JStr (password r)), (''length'', JInt (result_length r)),
     (''entropy'', JReal (entropy r)), (''strength'', JStr (strength r))])"

fun get_failed :: "json_dump \<Rightarrow> Response \<Rightarrow> Metrics \<Rightarrow> World \<Rightarrow> exn \<Rightarrow> Metrics handled" where
  \<comment> \<open>the \<open>catch\<close> clauses of \<open>handle_get\<close>\<close>
  "get_failed dump res m w (Invalid_argument msg) =
     conclude (send_error_response dump 400 ''Bad Request'' (''Invalid parameter value: '' @ msg) res) m m w"
| "get_failed dump res m w e =
     conclude (send_error_response dump 500 ''Internal Server Error'' (what e) res) m (record_error m) w"

definition handle_get :: "Env \<Rightarrow> Request \<Rightarrow> Response \<Rightarrow> Metrics \<Rightarrow> World \<Rightarrow>
    Metrics handled" where
  "handle_get env req res m w =
     (case get_query_config req of
        Undefined \<Rightarrow> Undefined
      | Throw e \<Rightarrow> get_failed (env_dump env) res m w e
      | Return config \<Rightarrow>
          let start = env_hrc env (tick w) in
          (case generate (env_rng env) (env_fl env) (env_log2 env) config (gen w) of
            Undefined \<Rightarrow> Undefined
          | Throw e \<Rightarrow> get_failed (env_dump env) res m (ticked 1 w) e
          | Return (result, g) \<Rightarrow>
              let m = record_request (env_steady env (tick w + 2))
                        (ScopedTimer_elapsed (env_fl env) start (env_hrc env (tick w + 1))) m;
                  w = ticked 3 (w\<lparr>gen := g\<rparr>)
              in try_response (get_failed (env_dump env) res m w)
                   (send_json_response (env_dump env) (password_json result) 200 res) m w))"

definition readBool :: "json \<Rightarrow> string \<Rightarrow> bool \<Rightarrow> bool" where
  "readBool body key field = (case json_at body key of Some (JBool b) \<Rightarrow> b | _ \<Rightarrow> field)"

definition readInt :: "json \<Rightarrow> string \<Rightarrow> int \<Rightarrow> int" where
  \<comment> \<open>\<open>get<int>()\<close> converts the stored 64-bit value to int\<close>
  "readInt body key field = (case json_at body key of Some (JInt v) \<Rightarrow> cast_int v | _ \<Rightarrow> field)"

definition get_body_config :: "json \<Rightarrow> PasswordConfig" where
  "get_body_config body =
     \<lparr>pw_length = readInt body ''length'' (pw_length PasswordConfig_default),
      uppercase = readBool body ''uppercase'' (uppercase PasswordConfig_default),
      lowercase = readBool body ''lowercase'' (lowercase PasswordConfig_default),
      digits = readBool body ''digits'' (digits PasswordConfig_default),
      symbols = readBool body ''symbols'' (symbols PasswordConfig_default),
      exclude_similar = readBool body ''exclude_similar'' (exclude_similar PasswordConfig_default)\<rparr>"

definition passwords_json :: "PasswordResult list \<Rightarrow> json" where
  "passwords_json rs = JObj (obj_of [(''count'', JInt (cast_int (int (length rs)))),
     (''passwords'', JArr (map password_json rs))])"

fun post_failed :: "json_dump \<Rightarrow> Response \<Rightarrow> Metrics \<Rightarrow> World \<Rightarrow> exn \<Rightarrow> Metrics handled" where
  \<comment> \<open>the \<open>catch\<close> clauses of \<open>handle_post\<close>\<close>
  "post_failed dump res m w (Json_exception msg) =
     conclude (send_error_response dump 400 ''Bad Request'' (''Invalid JSON: '' @ msg) res) m m w"
| "post_failed dump res m w (Invalid_argument msg) =
     conclude (send_error_response dump 400 ''Bad Request'' msg res) m m w"
| "post_failed dump res m w e =
     conclude (send_error_response dump 500 ''Internal Server Error'' (what e) res) m (record_error m) w"

definition handle_post :: "Env \<Rightarrow> PasswordHandler \<Rightarrow> Request \<Rightarrow> Response \<Rightarrow> Metrics \<Rightarrow> World \<Rightarrow>
    Metrics handled" where
  "handle_post env h req res m w =
     (case env_parse env (req_body req) of
        Inl e \<Rightarrow> post_failed (env_dump env) res m w e
      | Inr body \<Rightarrow>
          let config = get_body_config body; cnt = readInt body ''count'' 1 in
          if cnt < 1
          then try_response (post_failed (env_dump env) res m w)
                 (send_error_response (env_dump env) 400 ''Bad Request'' ''Count must be at least 1'' res) m w
          else if cnt > max_batch h
          then try_response (post_failed (env_dump env) res m w)
                 (send_error_response (env_dump env) 400 ''Bad Request''
                    (''Count cannot exceed '' @ int_to_string (max_batch h)) res) m w
          else let start = env_hrc env (tick w) in
            (case generate_batch (env_rng env) (env_fl env) (env_log2 env) config cnt (gen w) of
              Undefined \<Rightarrow> Undefined
            | Throw e \<Rightarrow> post_failed (env_dump env) res m (ticked 1 w) e
            | Return (results, g) \<Rightarrow>
                let m = record_request (env_steady env (tick w + 2))
                          (ScopedTimer_elapsed (env_fl env) start (env_hrc env (tick w + 1))) m;
                    w = ticked 3 (w\<lparr>gen := g\<rparr>)
                in try_response (post_failed (env_dump env) res m w)
                     (send_json_response (env_dump env) (passwords_json results) 200 res) m w))"

section \<open>Serialisation\<close>

lemma ascii_class_of: "ascii chars \<Longrightarrow> ascii (class_of config chars cs)"
  by (auto simp: ascii_def class_of_def list_all_iff)

lemma charset_ascii: "ascii UPPERCASE" "ascii LOWERCASE" "ascii DIGITS" "ascii SYMBOLS"
  by (simp_all add: ascii_def UPPERCASE_def LOWERCASE_def DIGITS_def SYMBOLS_def)

lemma classes_ascii: "cs \<in> set (classes config) \<Longrightarrow> ascii cs"
  by (auto simp: classes_def charset_ascii ascii_class_of split: if_splits)

lemma good_password_ascii: "good_password config r \<Longrightarrow> json_ascii (password_json r)"
proof -
  assume good: "good_password config r"
  then have "ascii (password r)"
    using classes_ascii [of _ config] unfolding good_password_def ascii_def list_all_iff by fastforce
  moreover have "ascii (strength r)"
    using good by (auto simp: good_password_def get_strength_rating_def ascii_def)
  ultimately show ?thesis unfolding password_json_def by (intro ascii_obj_of) (simp add: ascii_def)
qed

lemma passwords_ascii: "\<forall>r\<in>set rs. good_password config r \<Longrightarrow> json_ascii (passwords_json rs)"
  unfolding passwords_json_def
  by (intro ascii_obj_of) (auto simp: ascii_def intro: good_password_ascii)

lemma validate_ascii: "validate_config config = Some m \<Longrightarrow> ascii m"
  by (auto simp: validate_config_def ascii_def split: if_splits)

lemma query_config_Throw:
  "get_query_config req = Throw e \<Longrightarrow> e = Invalid_argument ''stoi'' \<or> e = Out_of_range ''stoi''"
  by (auto simp: get_query_config_def outcome_simps Let_def dest: stoi_Throw split: if_splits)

lemma query_config_defined [simp]: "get_query_config req \<noteq> Undefined"
  by (cases "stoi (get_param_value req ''length'')") (auto simp: get_query_config_def Let_def)

section \<open>The endpoints always complete\<close>

definition handled_ok :: "Metrics \<Rightarrow> World \<Rightarrow> Metrics handled \<Rightarrow> bool" where
  "handled_ok m w r \<longleftrightarrow> (\<exists>x m' w'. r = Return (x, m', w') \<and> later w w' \<and> (metrics_bounded m \<longrightarrow> metrics_bounded m'))"

lemma conclude_ok:
  assumes "r \<noteq> Undefined" "later w w'" "metrics_bounded m \<Longrightarrow> metrics_bounded m1" "metrics_bounded m \<Longrightarrow> metrics_bounded m2"
  shows "handled_ok m w (conclude r m1 m2 w')"
  using conclude_total [OF assms(1), of m1 m2 w'] assms(2-) unfolding handled_ok_def by blast

lemma get_failed_total: "later w w' \<Longrightarrow> (metrics_bounded m \<Longrightarrow> metrics_bounded m') \<Longrightarrow> handled_ok m w (get_failed dump res m' w' e)"
  by (cases e) (auto intro!: conclude_ok metrics_bounded_error)

lemma post_failed_total: "later w w' \<Longrightarrow> (metrics_bounded m \<Longrightarrow> metrics_bounded m') \<Longrightarrow> handled_ok m w (post_failed dump res m' w' e)"
  by (cases e) (auto intro!: conclude_ok metrics_bounded_error)

lemma try_response_total:
  assumes "\<And>e. handled_ok m w (failed e)" "r \<noteq> Undefined" "later w w'" "metrics_bounded m \<Longrightarrow> metrics_bounded m'"
  shows "handled_ok m w (try_response failed r m' w')"
  using assms by (cases r) (auto simp: try_response_def handled_ok_def)

lemma generate_defined: "rng_ok rng \<Longrightarrow> generate rng fl log2 config g \<noteq> Undefined"
  using generate_good [of rng config fl log2 g] by (cases "validate_config config") (auto simp: generate_def)

lemma generate_batch_defined:
  assumes "rng_ok rng"
  shows "generate_batch rng fl log2 config n g \<noteq> Undefined"
proof (cases "validate_config config")
  case None
  then show ?thesis using generate_loop_ok [OF assms None, of fl log2 "nat n" g] by (auto simp: generate_batch_def)
next
  case (Some msg)
  then show ?thesis by (cases "nat n") (auto simp: generate_batch_def generate_def)
qed

lemma handle_get_total:
  assumes "rng_ok (env_rng env)"
  shows "handled_ok m w (handle_get env req res m w)"
  using generate_defined [OF assms] query_config_defined [of req]
  by (auto simp: handle_get_def Let_def split: outcome.splits intro!: get_failed_total try_response_total metrics_bounded_record)

lemma handle_post_total:
  assumes "rng_ok (env_rng env)"
  shows "handled_ok m w (handle_post env h req res m w)"
  using generate_batch_defined [OF assms]
  by (auto simp: handle_post_def Let_def split: outcome.splits sum.splits
      intro!: post_failed_total try_response_total metrics_bounded_record)

section \<open>Properties\<close>

lemma get_failed_ok:
  assumes "dump_ok dump" and "e = Invalid_argument msg \<or> e = Out_of_range msg" and "ascii msg"
  shows "\<exists>res'. get_failed dump res m w e =
      Return (Inr res', if e = Invalid_argument msg then m else record_error m, w) \<and>
    status res' = (if e = Invalid_argument msg then 400 else 500)"
  using assms(2)
proof
  assume e: "e = Invalid_argument msg"
  have "ascii (''Invalid parameter value: '' @ msg)" using assms(3) by (simp add: ascii_def)
  from send_error_ok [OF assms(1) _ this, of "''Bad Request''" 400 res] e show ?thesis
    by (auto simp: ascii_def set_content_def)
next
  assume e: "e = Out_of_range msg"
  from send_error_ok [OF assms(1) _ assms(3), of "''Internal Server Error''" 500 res] e show ?thesis
    by (auto simp: ascii_def set_content_def)
qed

text \<open>C38: The GET endpoint always answers, and its answer is determined by the query. A query that
  gives a valid configuration gets status 200 with the serialisation of a good password and counts
  as one request. A configuration outside the limits, or a length that is not a number, gets status
  400 and leaves the metrics alone. A length that is a number beyond the range of int gets status
  500 and counts as a server error.\<close>

theorem handle_get_outcome:
  assumes "dump_ok (env_dump env)" and "rng_ok (env_rng env)"
  shows "\<exists>res' m' w'. handle_get env req res m w = Return (Inr res', m', w') \<and>
    (case get_query_config req of
       Return config \<Rightarrow>
         if validate_config config = None
         then status res' = 200 \<and> total_requests m' = total_requests m + 1 \<and> total_errors m' = total_errors m \<and>
              (\<exists>r. good_password config r \<and> env_dump env (password_json r) = Inr (content res'))
         else status res' = 400 \<and> m' = m
     | Throw e \<Rightarrow> if e = Invalid_argument ''stoi'' then status res' = 400 \<and> m' = m
         else status res' = 500 \<and> m' = record_error m
     | Undefined \<Rightarrow> False)"
proof (cases "get_query_config req")
  case (Return config)
  show ?thesis
  proof (cases "validate_config config")
    case None
    obtain r g where gen: "generate (env_rng env) (env_fl env) (env_log2 env) config (gen w) = Return (r, g)"
      "good_password config r" using generate_good [OF assms(2) None] by blast
    from send_json_ok [OF assms(1) good_password_ascii [OF gen(2)], of 200 res] obtain s where
      s: "env_dump env (password_json r) = Inr s"
        "send_json_response (env_dump env) (password_json r) 200 res =
           Return (set_content s ''application/json'' (res\<lparr>status := 200\<rparr>))" by blast
    show ?thesis using Return None gen s by (simp add: handle_get_def Let_def try_response_def set_content_def) blast
  next
    case (Some msg)
    then have gen: "generate (env_rng env) (env_fl env) (env_log2 env) config (gen w) = Throw (Invalid_argument msg)"
      by (simp add: generate_def)
    from get_failed_ok [OF assms(1), of "Invalid_argument msg" msg res m "ticked 1 w"] Return Some gen
    show ?thesis by (simp add: handle_get_def Let_def validate_ascii) blast
  qed
next
  case (Throw e)
  then have "e = Invalid_argument ''stoi'' \<or> e = Out_of_range ''stoi''" by (rule query_config_Throw)
  with get_failed_ok [OF assms(1), of e "''stoi''" res m w] Throw show ?thesis
    by (auto simp: handle_get_def ascii_def)
qed (simp)

theorem handle_get_outcome_witness:
  "\<exists>res' m' w'. handle_get toy_env (toy_request\<lparr>get_param_value := \<lambda>k. if k = ''length'' then ''99999999999'' else []\<rparr>)
     Response_new (Metrics_new 0) toy_world = Return (Inr res', m', w') \<and> status res' = 500 \<and> total_errors m' = 1"
proof -
  let ?req = "toy_request\<lparr>get_param_value := \<lambda>k. if k = ''length'' then ''99999999999'' else []\<rparr>"
  have "get_query_config ?req = Throw (Out_of_range ''stoi'')"
    by (simp add: get_query_config_def stoi_def sto_signed_def parse_number_def is_space_def is_digit_def
        digits_value_def signed_value_def)
  with handle_get_outcome [OF toy_env_ok, of ?req Response_new "Metrics_new 0" toy_world] show ?thesis
    by (auto simp: record_error_def Metrics_new_def)
qed

lemma try_error_ok:
  assumes "dump_ok dump" "ascii err" "ascii msg"
  shows "\<exists>res'. try_response failed (send_error_response dump st err msg res) m w = Return (Inr res', m, w) \<and> status res' = st"
  using send_error_ok [OF assms, of st res] by (auto simp: try_response_def set_content_def)

lemma post_failed_ok:
  assumes "dump_ok dump" and "e = Invalid_argument msg \<or> e = Json_exception msg" and "ascii msg"
  shows "\<exists>res'. post_failed dump res m w e = Return (Inr res', m, w) \<and> status res' = 400"
proof -
  have a: "ascii (''Invalid JSON: '' @ msg)" "ascii ''Bad Request''" using assms(3) by (simp_all add: ascii_def)
  from assms(2) show ?thesis
    using send_error_ok [OF assms(1) a(2) a(1), of 400 res] send_error_ok [OF assms(1) a(2) assms(3), of 400 res]
    by (auto simp: set_content_def)
qed

lemma generate_batch_valid:
  assumes "rng_ok rng" "validate_config config = None" "1 \<le> cnt"
  shows "\<exists>rs g'. generate_batch rng fl log2 config cnt g = Return (rs, g') \<and> int (length rs) = cnt \<and>
    (\<forall>r\<in>set rs. good_password config r)"
  using generate_loop_ok [OF assms(1,2), of fl log2 "nat cnt" g] assms(3) by (auto simp: generate_batch_def)

lemma generate_batch_invalid:
  assumes "validate_config config = Some msg" "1 \<le> cnt"
  shows "generate_batch rng fl log2 config cnt g = Throw (Invalid_argument msg)"
proof -
  obtain n where "nat cnt = Suc n" using assms(2) by (cases "nat cnt") auto
  with assms show ?thesis by (simp add: generate_batch_def generate_def)
qed



text \<open>An integer of the body is converted to int before it is checked: a requested length of
  \<open>2^32 + 16\<close>, far beyond the limit of 128, is taken for 16 and accepted with status 200.\<close>

lemma post_length_wraps:
  "readInt (JObj [(''length'', JInt (2 ^ 32 + 16))]) ''length'' 0 = 16 \<and>
   (\<exists>res' m' w'. handle_post toy_env \<lparr>max_batch = 10\<rparr> (toy_request\<lparr>req_body := ''big''\<rparr>)
     Response_new (Metrics_new 0) toy_world = Return (Inr res', m', w') \<and> status res' = 200)"
proof -
  have wrap: "cast_int 4294967312 = 16" by (simp add: cast_int_def signed_take_bit_eq_if_positive take_bit_eq_mod bit_iff_odd)
  have parse: "env_parse toy_env (req_body (toy_request\<lparr>req_body := ''big''\<rparr>)) = Inr (JObj [(''length'', JInt 4294967312)])"
    by (simp add: toy_env_def toy_request_def)
  have conf: "get_body_config (JObj [(''length'', JInt 4294967312)]) = PasswordConfig_default"
    by (simp add: get_body_config_def readInt_def readBool_def json_at_def PasswordConfig_default_def wrap)
  have valid: "validate_config PasswordConfig_default = None"
    by (simp add: validate_config_def PasswordConfig_default_def)
  have cnt: "readInt (JObj [(''length'', JInt 4294967312)]) ''count'' 1 = 1"
    by (simp add: readInt_def json_at_def)
  have rng: "rng_ok (env_rng toy_env)" by (rule toy_env_ok)
  obtain rs g where rs: "generate_batch (env_rng toy_env) (env_fl toy_env) (env_log2 toy_env) PasswordConfig_default 1 (gen toy_world)
      = Return (rs, g)" using generate_batch_valid [OF rng valid, of 1] by fastforce
  have "send_json_response (env_dump toy_env) (passwords_json rs) 200 Response_new =
      Return (set_content ''json'' ''application/json'' (Response_new\<lparr>status := 200\<rparr>))"
    by (simp add: send_json_response_def toy_env_def)
  with parse conf cnt rs show ?thesis
    by (simp add: handle_post_def Let_def try_response_def set_content_def readInt_def json_at_def wrap)
qed

end
