(* ===== verification/Paths.thy ===== *)
theory Paths
  imports Prelude
begin

text \<open>
  \<open>paths.cpp\<close>: the default locations under the home directory. Paths are strings; \<open>getenv\<close> and
  \<open>getpwuid\<close> are the fields of a record, and \<open>create_directories\<close> is a parameter that returns None
  where the operating system reports an error.
\<close>

record Host =
  env_HOME :: "string option"
  pw_dir :: "string option"

definition path_append :: "string \<Rightarrow> string \<Rightarrow> string" where
  \<comment> \<open>\<open>std::filesystem::path::operator/\<close>\<close>
  "path_append p q =
     (if q \<noteq> [] \<and> hd q = CHR ''/'' then q
      else if p = [] \<or> last p = CHR ''/'' then p @ q
      else p @ ''/'' @ q)"

definition parent_path :: "string \<Rightarrow> string" where
  \<comment> \<open>of a path whose last component is not empty\<close>
  "parent_path p = (let q = rev (dropWhile (\<lambda>c. c \<noteq> CHR ''/'') (rev p))
     in if length q \<le> 1 then q else butlast q)"

definition APP_DIR :: string where "APP_DIR = ''ip_local''"

definition get_home :: "Host \<Rightarrow> string" where
  "get_home h = (case env_HOME h of Some home \<Rightarrow> home
     | None \<Rightarrow> (case pw_dir h of Some dir \<Rightarrow> dir | None \<Rightarrow> ''/tmp''))"

definition base_dir :: "Host \<Rightarrow> string" where
  "base_dir h = path_append (path_append (get_home h) ''.config'') APP_DIR"

definition default_config_file :: "Host \<Rightarrow> string" where
  "default_config_file h = path_append (base_dir h) ''config.json''"

definition database_dir :: "Host \<Rightarrow> string" where
  "database_dir h = path_append (base_dir h) ''databases''"

definition default_city_db_path :: "Host \<Rightarrow> string" where
  "default_city_db_path h = path_append (database_dir h) ''GeoLite2-City.mmdb''"

definition default_asn_db_path :: "Host \<Rightarrow> string" where
  "default_asn_db_path h = path_append (database_dir h) ''GeoLite2-ASN.mmdb''"

definition default_oui_db_path :: "Host \<Rightarrow> string" where
  "default_oui_db_path h = path_append (database_dir h) ''master_oui.db''"

definition default_log_file_path :: "Host \<Rightarrow> string" where
  "default_log_file_path h = path_append (path_append (base_dir h) ''logs'') ''ip_server.log''"

definition ensure_directories :: "(string \<Rightarrow> 'd \<Rightarrow> 'd option) \<Rightarrow> Host \<Rightarrow> 'd \<Rightarrow> 'd" where
  \<comment> \<open>an error is logged, cleared and does not stop the loop\<close>
  "ensure_directories create_directories h d =
     foldl (\<lambda>d dir. case create_directories dir d of Some d' \<Rightarrow> d' | None \<Rightarrow> d) d
       [base_dir h, database_dir h, parent_path (default_log_file_path h)]"

definition plain_dir :: "string \<Rightarrow> bool" where
  "plain_dir p \<longleftrightarrow> p \<noteq> [] \<and> last p \<noteq> CHR ''/''"

definition component :: "string \<Rightarrow> bool" where
  "component q \<longleftrightarrow> q \<noteq> [] \<and> CHR ''/'' \<notin> set q"

lemma path_append_plain: "plain_dir p \<Longrightarrow> component q \<Longrightarrow> path_append p q = p @ ''/'' @ q"
  by (cases q) (auto simp: path_append_def plain_dir_def component_def)

lemma plain_append: "plain_dir p \<Longrightarrow> component q \<Longrightarrow> plain_dir (path_append p q)"
  by (auto simp: path_append_plain) (auto simp: plain_dir_def component_def dest: last_in_set)

lemma parent_append:
  assumes "plain_dir p" "component q"
  shows "parent_path (path_append p q) = p"
proof -
  have "dropWhile (\<lambda>c. c \<noteq> CHR ''/'') (rev q @ CHR ''/'' # rev p) = CHR ''/'' # rev p"
    using assms(2) by (subst dropWhile_append2) (auto simp: component_def)
  then have "rev (dropWhile (\<lambda>c. c \<noteq> CHR ''/'') (rev (path_append p q))) = p @ ''/''"
    by (simp add: path_append_plain [OF assms])
  then show ?thesis using assms(1) by (simp add: parent_path_def plain_dir_def)
qed

lemma components:
  "component ''.config''" "component APP_DIR" "component ''config.json''" "component ''databases''"
  "component ''GeoLite2-City.mmdb''" "component ''GeoLite2-ASN.mmdb''" "component ''master_oui.db''"
  "component ''logs''" "component ''ip_server.log''"
  by (simp_all add: component_def APP_DIR_def)

lemma base_dir_plain:
  assumes "plain_dir (get_home h)"
  shows "plain_dir (base_dir h)" "base_dir h = get_home h @ ''/.config/ip_local''"
proof -
  show "plain_dir (base_dir h)" unfolding base_dir_def by (intro plain_append assms components)
  have "base_dir h = path_append (get_home h) ''.config'' @ ''/'' @ APP_DIR"
    unfolding base_dir_def by (rule path_append_plain [OF plain_append [OF assms components(1)] components(2)])
  then show "base_dir h = get_home h @ ''/.config/ip_local''"
    by (simp add: path_append_plain [OF assms components(1)] APP_DIR_def)
qed

text \<open>With a home directory that does not end in a slash, every default file lies at its documented
  place below \<open>$HOME/.config/ip_local\<close>, and the directories created at startup are exactly the
  parents of those files.\<close>

lemma default_layout:
  assumes "plain_dir (get_home h)"
  shows "default_config_file h = get_home h @ ''/.config/ip_local/config.json'' \<and>
    default_city_db_path h = get_home h @ ''/.config/ip_local/databases/GeoLite2-City.mmdb'' \<and>
    default_asn_db_path h = get_home h @ ''/.config/ip_local/databases/GeoLite2-ASN.mmdb'' \<and>
    default_oui_db_path h = get_home h @ ''/.config/ip_local/databases/master_oui.db'' \<and>
    ensure_directories (\<lambda>dir ds. Some (insert dir ds)) h {} =
      parent_path ` {default_config_file h, default_city_db_path h, default_asn_db_path h,
        default_oui_db_path h, default_log_file_path h}"
proof -
  note base = base_dir_plain [OF assms]
  have db: "plain_dir (database_dir h)" unfolding database_dir_def by (intro plain_append base components)
  have logs: "plain_dir (path_append (base_dir h) ''logs'')" by (intro plain_append base components)
  have parents: "parent_path (default_config_file h) = base_dir h"
    "parent_path (default_city_db_path h) = database_dir h" "parent_path (default_asn_db_path h) = database_dir h"
    "parent_path (default_oui_db_path h) = database_dir h"
    unfolding default_config_file_def default_city_db_path_def default_asn_db_path_def default_oui_db_path_def
    by (intro parent_append base db components)+
  have "ensure_directories (\<lambda>dir ds. Some (insert dir ds)) h {} =
      {base_dir h, database_dir h, parent_path (default_log_file_path h)}"
    by (auto simp: ensure_directories_def)
  then have made: "ensure_directories (\<lambda>dir ds. Some (insert dir ds)) h {} =
      parent_path ` {default_config_file h, default_city_db_path h, default_asn_db_path h,
        default_oui_db_path h, default_log_file_path h}"
    by (simp only: image_insert image_empty parents insert_absorb2)
  have "database_dir h = get_home h @ ''/.config/ip_local/databases''"
    unfolding database_dir_def path_append_plain [OF base(1) components(4)] by (simp add: base(2))
  moreover have "default_config_file h = base_dir h @ ''/config.json''"
    "default_city_db_path h = database_dir h @ ''/GeoLite2-City.mmdb''"
    "default_asn_db_path h = database_dir h @ ''/GeoLite2-ASN.mmdb''"
    "default_oui_db_path h = database_dir h @ ''/master_oui.db''"
    using path_append_plain [OF base(1) components(3)] path_append_plain [OF db components(5)]
      path_append_plain [OF db components(6)] path_append_plain [OF db components(7)]
    by (simp_all add: default_config_file_def default_city_db_path_def default_asn_db_path_def default_oui_db_path_def)
  ultimately show ?thesis using base(2) made by simp
qed

end
