(* ===== verification/Config.thy ===== *)
theory Config
  imports Json Validation Std_Parse Paths
begin

text \<open>
  \<open>config.cpp\<close> and \<open>config.h\<close>: the server configuration, its limits, its JSON form and the order in
  which defaults, configuration file and command line are combined. The file system is a function
  from paths to contents; JSON printing and stream parsing and the parsed command line of cxxopts
  are parameters.
\<close>

section \<open>Model\<close>

definition MIN_PORT :: int where "MIN_PORT = 1"
definition MAX_PORT :: int where "MAX_PORT = 65535"
definition MIN_THREAD_POOL :: int where "MIN_THREAD_POOL = 1"
definition MAX_THREAD_POOL :: int where "MAX_THREAD_POOL = 64"
definition MIN_RATE_LIMIT :: int where "MIN_RATE_LIMIT = 1"
definition MAX_RATE_LIMIT :: int where "MAX_RATE_LIMIT = 10000"
definition MIN_BATCH_SIZE :: int where "MIN_BATCH_SIZE = 1"
definition MAX_BATCH_SIZE :: int where "MAX_BATCH_SIZE = 1000"
definition MIN_LOG_FILE_SIZE :: u64 where "MIN_LOG_FILE_SIZE = 1 * 1024 * 1024"
definition MAX_LOG_FILE_SIZE :: u64 where "MAX_LOG_FILE_SIZE = 1 * 1024 * 1024 * 1024"
definition MIN_BACKUP_FILES :: int where "MIN_BACKUP_FILES = 0"
definition MAX_BACKUP_FILES :: int where "MAX_BACKUP_FILES = 100"

lemmas config_limits = MIN_PORT_def MAX_PORT_def MIN_THREAD_POOL_def MAX_THREAD_POOL_def MIN_RATE_LIMIT_def
  MAX_RATE_LIMIT_def MIN_BATCH_SIZE_def MAX_BATCH_SIZE_def MIN_LOG_FILE_SIZE_def MAX_LOG_FILE_SIZE_def
  MIN_BACKUP_FILES_def MAX_BACKUP_FILES_def

record ServerConfig =
  cfg_host :: string
  cfg_port :: u16
  cfg_city_db_path :: string
  cfg_asn_db_path :: string
  cfg_oui_db_path :: string
  cfg_thread_pool_size :: int
  cfg_config_file :: string
  cfg_enable_rate_limiter :: bool
  cfg_max_requests_per_minute :: int
  cfg_max_batch_size :: int
  cfg_enable_api_auth :: bool
  cfg_api_keys_file :: string
  cfg_default_api_key :: string
  cfg_enable_file_logging :: bool
  cfg_log_file_path :: string
  cfg_log_rotation_type :: string
  cfg_log_max_file_size :: u64
  cfg_log_max_backup_files :: int
  cfg_log_enable_stdout :: bool
  cfg_log_level :: string

definition ServerConfig_default :: ServerConfig where
  "ServerConfig_default = \<lparr>cfg_host = ''0.0.0.0'', cfg_port = 8080, cfg_city_db_path = [],
     cfg_asn_db_path = [], cfg_oui_db_path = [], cfg_thread_pool_size = 4, cfg_config_file = [],
     cfg_enable_rate_limiter = True, cfg_max_requests_per_minute = 100, cfg_max_batch_size = 100,
     cfg_enable_api_auth = False, cfg_api_keys_file = [], cfg_default_api_key = [],
     cfg_enable_file_logging = False, cfg_log_file_path = ''logs/ip_server.log'',
     cfg_log_rotation_type = ''size'', cfg_log_max_file_size = 10 * 1024 * 1024,
     cfg_log_max_backup_files = 5, cfg_log_enable_stdout = True, cfg_log_level = ''info''\<rparr>"

definition applyDefaultPaths :: "Host \<Rightarrow> ServerConfig \<Rightarrow> ServerConfig" where
  "applyDefaultPaths h config = config\<lparr>cfg_city_db_path := default_city_db_path h,
     cfg_asn_db_path := default_asn_db_path h, cfg_oui_db_path := default_oui_db_path h,
     cfg_config_file := default_config_file h, cfg_log_file_path := default_log_file_path h\<rparr>"

definition check_range :: "string \<Rightarrow> int \<Rightarrow> int \<Rightarrow> int \<Rightarrow> unit outcome" where
  "check_range name v mn mx =
     (if v < mn \<or> v > mx
      then Throw (Runtime_error (''Invalid '' @ name @ '': must be between '' @ int_to_string mn @
             '' and '' @ int_to_string mx))
      else Return ())"

definition validate :: "ServerConfig \<Rightarrow> unit outcome" where
  "validate config =
     obind (check_range ''Port'' (uint (cfg_port config)) MIN_PORT MAX_PORT) (\<lambda>_.
     obind (check_range ''Thread pool size'' (cfg_thread_pool_size config) MIN_THREAD_POOL MAX_THREAD_POOL) (\<lambda>_.
     obind (if cfg_enable_rate_limiter config
            then check_range ''Max requests per minute'' (cfg_max_requests_per_minute config) MIN_RATE_LIMIT MAX_RATE_LIMIT
            else Return ()) (\<lambda>_.
     obind (check_range ''Max batch size'' (cfg_max_batch_size config) MIN_BATCH_SIZE MAX_BATCH_SIZE) (\<lambda>_.
     if cfg_enable_file_logging config
     then if cfg_log_rotation_type config \<notin> {''none'', ''size''}
          then Throw (Runtime_error ''Invalid log rotation type: must be none or size'')
          else obind (check_range ''Log max file size (MB)'' (uint (cfg_log_max_file_size config div (1024 * 1024)))
                        (uint (MIN_LOG_FILE_SIZE div (1024 * 1024))) (uint (MAX_LOG_FILE_SIZE div (1024 * 1024)))) (\<lambda>_.
               check_range ''Log max backup files'' (cfg_log_max_backup_files config) MIN_BACKUP_FILES MAX_BACKUP_FILES)
     else Return ()))))"

text \<open>The readers of \<open>from_json\<close>; the update function of a field stands for the reference to it.\<close>

definition read_str :: "json \<Rightarrow> string \<Rightarrow> ((string \<Rightarrow> string) \<Rightarrow> 'c \<Rightarrow> 'c) \<Rightarrow> 'c \<Rightarrow> 'c outcome" where
  "read_str j key upd c =
     (case json_at j key of None \<Rightarrow> Return c | Some v \<Rightarrow> obind (get_string v) (\<lambda>s. Return (upd (\<lambda>_. s) c)))"

definition read_int :: "json \<Rightarrow> string \<Rightarrow> (int \<Rightarrow> 'a) \<Rightarrow> (('a \<Rightarrow> 'a) \<Rightarrow> 'c \<Rightarrow> 'c) \<Rightarrow> 'c \<Rightarrow> 'c outcome" where
  \<comment> \<open>\<open>conv\<close> is the conversion to the field's type\<close>
  "read_int j key conv upd c =
     (case json_at j key of
        Some (JInt v) \<Rightarrow> Return (upd (\<lambda>_. conv v) c)
      | Some (JStr s) \<Rightarrow> obind (stoll s) (\<lambda>v. Return (upd (\<lambda>_. conv v) c))
      | _ \<Rightarrow> Return c)"

definition read_bool :: "json \<Rightarrow> string \<Rightarrow> ((bool \<Rightarrow> bool) \<Rightarrow> 'c \<Rightarrow> 'c) \<Rightarrow> 'c \<Rightarrow> 'c outcome" where
  "read_bool j key upd c =
     (case json_at j key of
        Some (JBool b) \<Rightarrow> Return (upd (\<lambda>_. b) c)
      | Some (JStr s) \<Rightarrow> Return (upd (\<lambda>_. parseBoolString s) c)
      | _ \<Rightarrow> Return c)"

definition read_size :: "json \<Rightarrow> ServerConfig \<Rightarrow> ServerConfig outcome" where
  "read_size j c =
     (case json_at j ''log_max_file_size'' of
        None \<Rightarrow> Return c
      | Some v \<Rightarrow> obind (case v of JInt n \<Rightarrow> Return (word_of_int n) | JStr s \<Rightarrow> stoull s | _ \<Rightarrow> Return 0) (\<lambda>raw.
          Return (c\<lparr>cfg_log_max_file_size := raw * 1024 * 1024\<rparr>)))"

definition from_json :: "ServerConfig \<Rightarrow> json \<Rightarrow> ServerConfig outcome" where
  "from_json c j =
     obind (read_str j ''host'' cfg_host_update c) (\<lambda>c.
     obind (read_int j ''port'' word_of_int cfg_port_update c) (\<lambda>c.
     obind (read_str j ''city_db'' cfg_city_db_path_update c) (\<lambda>c.
     obind (read_str j ''asn_db'' cfg_asn_db_path_update c) (\<lambda>c.
     obind (read_str j ''oui_db'' cfg_oui_db_path_update c) (\<lambda>c.
     obind (read_int j ''threads'' cast_int cfg_thread_pool_size_update c) (\<lambda>c.
     obind (read_bool j ''enable_rate_limiter'' cfg_enable_rate_limiter_update c) (\<lambda>c.
     obind (read_int j ''max_requests_per_minute'' cast_int cfg_max_requests_per_minute_update c) (\<lambda>c.
     obind (read_int j ''max_batch_size'' cast_int cfg_max_batch_size_update c) (\<lambda>c.
     obind (read_bool j ''enable_api_auth'' cfg_enable_api_auth_update c) (\<lambda>c.
     obind (read_str j ''api_keys_file'' cfg_api_keys_file_update c) (\<lambda>c.
     obind (read_str j ''default_api_key'' cfg_default_api_key_update c) (\<lambda>c.
     obind (read_bool j ''enable_file_logging'' cfg_enable_file_logging_update c) (\<lambda>c.
     obind (read_str j ''log_file'' cfg_log_file_path_update c) (\<lambda>c.
     obind (read_bool j ''log_enable_stdout'' cfg_log_enable_stdout_update c) (\<lambda>c.
     obind (read_str j ''log_rotation'' cfg_log_rotation_type_update c) (\<lambda>c.
     obind (read_str j ''log_level'' cfg_log_level_update c) (\<lambda>c.
     obind (read_size j c) (\<lambda>c.
     read_int j ''log_max_backup_files'' cast_int cfg_log_max_backup_files_update c))))))))))))))))))"

definition to_json :: "ServerConfig \<Rightarrow> json_object" where
  \<comment> \<open>the object \<open>save_to_file\<close> builds\<close>
  "to_json c = obj_of (
     [(''host'', JStr (cfg_host c)), (''port'', JInt (uint (cfg_port c))),
      (''city_db'', JStr (cfg_city_db_path c)), (''asn_db'', JStr (cfg_asn_db_path c)),
      (''oui_db'', JStr (cfg_oui_db_path c)), (''threads'', JInt (cfg_thread_pool_size c)),
      (''enable_rate_limiter'', JBool (cfg_enable_rate_limiter c)),
      (''max_requests_per_minute'', JInt (cfg_max_requests_per_minute c)),
      (''max_batch_size'', JInt (cfg_max_batch_size c)),
      (''enable_api_auth'', JBool (cfg_enable_api_auth c)),
      (''api_keys_file'', JStr (cfg_api_keys_file c))] @
     (if cfg_default_api_key c \<noteq> [] then [(''default_api_key'', JStr (cfg_default_api_key c))] else []) @
     [(''enable_file_logging'', JBool (cfg_enable_file_logging c)),
      (''log_file'', JStr (cfg_log_file_path c)), (''log_enable_stdout'', JBool (cfg_log_enable_stdout c)),
      (''log_rotation'', JStr (cfg_log_rotation_type c)),
      (''log_max_file_size'', JInt (uint (cfg_log_max_file_size c div (1024 * 1024)))),
      (''log_max_backup_files'', JInt (cfg_log_max_backup_files c)),
      (''log_level'', JStr (cfg_log_level c))])"

type_synonym files = "string \<Rightarrow> string option"

definition load_from_file :: "json_parse \<Rightarrow> files \<Rightarrow> string \<Rightarrow> ServerConfig outcome" where
  "load_from_file parse_stream fs path =
     (case fs path of
        None \<Rightarrow> Throw (Runtime_error (''Cannot open config file: '' @ path))
      | Some content \<Rightarrow> obind (of_sum (parse_stream content)) (\<lambda>j. from_json ServerConfig_default j))"

definition save_to_file :: "json_dump \<Rightarrow> (string \<Rightarrow> bool) \<Rightarrow> ServerConfig \<Rightarrow> string \<Rightarrow> files \<Rightarrow> bool \<times> files" where
  \<comment> \<open>the output file is truncated before \<open>dump(2)\<close> runs\<close>
  "save_to_file dump2 writable c path fs =
     (if \<not> writable path then (False, fs)
      else case dump2 (JObj (to_json c)) of
        Inl e \<Rightarrow> (False, fs(path \<mapsto> []))
      | Inr s \<Rightarrow> (True, fs(path \<mapsto> s @ [CHR 0x0A])))"

definition handle_config_file ::
  "json_parse \<Rightarrow> json_dump \<Rightarrow> (string \<Rightarrow> bool) \<Rightarrow> Host \<Rightarrow> string \<Rightarrow> files \<Rightarrow> (ServerConfig \<times> files) outcome" where
  "handle_config_file parse_stream dump2 writable h path fs =
     (let is_empty = (case fs path of None \<Rightarrow> True | Some content \<Rightarrow> content = []) in
      if is_empty
      then (let cfg = (applyDefaultPaths h ServerConfig_default)\<lparr>cfg_config_file := path\<rparr>;
                (saved, fs) = save_to_file dump2 writable cfg path fs
            in if saved then Return (cfg, fs) else Return (ServerConfig_default, fs))
      else catch_exn
             (obind (load_from_file parse_stream fs path) (\<lambda>cfg. Return (cfg, fs)))
             (\<lambda>e. Return (ServerConfig_default, fs)))"

text \<open>The command line as cxxopts delivers it: which options are given, and their values by type.\<close>

record ParseResult =
  opt_contains :: "string \<Rightarrow> bool"
  opt_string :: "string \<Rightarrow> string"
  opt_int :: "string \<Rightarrow> int"
  opt_u16 :: "string \<Rightarrow> u16"
  opt_size :: "string \<Rightarrow> u64"

datatype opt_type = Opt_flag | Opt_string | Opt_int | Opt_u16 | Opt_size

definition create_option_parser :: "(string \<times> opt_type \<times> string option) list" where
  \<comment> \<open>name, type and default value of the declared options\<close>
  "create_option_parser =
     [(''help'', Opt_flag, None), (''config'', Opt_string, None), (''city-db'', Opt_string, None),
      (''asn-db'', Opt_string, None), (''oui-db'', Opt_string, None),
      (''host'', Opt_string, Some ''0.0.0.0''), (''port'', Opt_u16, Some ''8080''),
      (''threads'', Opt_int, Some ''4''), (''enable-rate-limiter'', Opt_string, Some ''true''),
      (''max-requests-per-minute'', Opt_int, Some ''100''), (''max-batch-size'', Opt_int, Some ''100''),
      (''enable-api-auth'', Opt_string, Some ''false''), (''api-keys-file'', Opt_string, None),
      (''default-api-key'', Opt_string, None), (''enable-file-logging'', Opt_string, Some ''false''),
      (''log-file'', Opt_string, None), (''log-enable-stdout'', Opt_string, Some ''true''),
      (''log-rotation'', Opt_string, Some ''size''), (''log-max-size'', Opt_size, Some ''10''),
      (''log-max-backups'', Opt_int, Some ''5''), (''log-level'', Opt_string, Some ''info'')]"

definition set_opt :: "ParseResult \<Rightarrow> (ParseResult \<Rightarrow> string \<Rightarrow> 'a) \<Rightarrow> string \<Rightarrow> (('a \<Rightarrow> 'a) \<Rightarrow> 'c \<Rightarrow> 'c) \<Rightarrow> 'c \<Rightarrow> 'c" where
  "set_opt r get key upd c = (if opt_contains r key then upd (\<lambda>_. get r key) c else c)"

definition opt_bool :: "ParseResult \<Rightarrow> string \<Rightarrow> bool" where
  "opt_bool r key = parseBoolString (opt_string r key)"

definition apply_cli_overrides :: "ParseResult \<Rightarrow> ServerConfig \<Rightarrow> ServerConfig" where
  "apply_cli_overrides r c =
     (let c = set_opt r opt_string ''host'' cfg_host_update c;
          c = set_opt r opt_u16 ''port'' cfg_port_update c;
          c = set_opt r opt_int ''threads'' cfg_thread_pool_size_update c;
          c = set_opt r opt_string ''city-db'' cfg_city_db_path_update c;
          c = set_opt r opt_string ''asn-db'' cfg_asn_db_path_update c;
          c = set_opt r opt_string ''oui-db'' cfg_oui_db_path_update c;
          c = set_opt r opt_bool ''enable-rate-limiter'' cfg_enable_rate_limiter_update c;
          c = set_opt r opt_int ''max-requests-per-minute'' cfg_max_requests_per_minute_update c;
          c = set_opt r opt_int ''max-batch-size'' cfg_max_batch_size_update c;
          c = set_opt r opt_bool ''enable-api-auth'' cfg_enable_api_auth_update c;
          c = set_opt r opt_string ''api-keys-file'' cfg_api_keys_file_update c;
          c = set_opt r opt_string ''default-api-key'' cfg_default_api_key_update c;
          c = set_opt r opt_bool ''enable-file-logging'' cfg_enable_file_logging_update c;
          c = set_opt r opt_string ''log-file''
                (\<lambda>f c. c\<lparr>cfg_log_file_path := f (cfg_log_file_path c), cfg_enable_file_logging := True\<rparr>) c;
          c = set_opt r opt_bool ''log-enable-stdout'' cfg_log_enable_stdout_update c;
          c = set_opt r opt_string ''log-rotation'' cfg_log_rotation_type_update c;
          c = set_opt r (\<lambda>r key. opt_size r key * 1024 * 1024) ''log-max-size'' cfg_log_max_file_size_update c;
          c = set_opt r opt_int ''log-max-backups'' cfg_log_max_backup_files_update c
      in set_opt r opt_string ''log-level'' cfg_log_level_update c)"

definition log_config :: "ServerConfig \<Rightarrow> string list" where
  \<comment> \<open>the lines written to the log\<close>
  "log_config c =
     (let switch = (\<lambda>b. if b then ''enabled'' else ''disabled'') in
      [''Configuration loaded:'', ''  Host: '' @ cfg_host c,
       ''  Port: '' @ int_to_string (uint (cfg_port c)),
       ''  City DB: '' @ cfg_city_db_path c, ''  ASN DB: '' @ cfg_asn_db_path c, ''  OUI DB: '' @ cfg_oui_db_path c,
       ''  Threads: '' @ int_to_string (cfg_thread_pool_size c),
       ''  Rate Limiter: '' @ switch (cfg_enable_rate_limiter c)] @
      (if cfg_enable_rate_limiter c
       then [''  Max Requests/Min: '' @ int_to_string (cfg_max_requests_per_minute c)] else []) @
      [''  Max Batch Size: '' @ int_to_string (cfg_max_batch_size c),
       ''  API Auth: '' @ switch (cfg_enable_api_auth c)] @
      (if cfg_enable_api_auth c
       then [''  API Keys File: '' @ cfg_api_keys_file c] @
            (if cfg_default_api_key c \<noteq> []
             then [''  Default API Key: '' @ substr (cfg_default_api_key c) 0 8 @ ''...''] else [])
       else []) @
      [''  File Logging: '' @ switch (cfg_enable_file_logging c)] @
      (if cfg_enable_file_logging c
       then [''  Log File: '' @ cfg_log_file_path c, ''  Log Rotation: '' @ cfg_log_rotation_type c] @
            (if cfg_log_rotation_type c = ''size''
             then [''  Max File Size: '' @ int_to_string (uint (cfg_log_max_file_size c div (1024 * 1024))) @ '' MB'']
             else []) @
            [''  Max Backup Files: '' @ int_to_string (cfg_log_max_backup_files c)]
       else []) @
      [''  Stdout Logging: '' @ switch (cfg_log_enable_stdout c), ''  Log Level: '' @ cfg_log_level c])"

definition parse_config ::
  "json_parse \<Rightarrow> json_dump \<Rightarrow> (string \<Rightarrow> bool) \<Rightarrow> Host \<Rightarrow> exn + ParseResult \<Rightarrow> files \<Rightarrow>
   ((exn + ServerConfig option) \<times> files \<times> string list) outcome" where
  \<comment> \<open>\<open>ConfigParser::parse\<close>: the exception it throws or what it returns, the files and the log it leaves
     behind. The command line is the result of \<open>options.parse\<close>; no configuration stands for
     \<open>std::exit(0)\<close> after the help text\<close>
  "parse_config parse_stream dump2 writable h cli fs =
     (case cli of
        Inl e \<Rightarrow> Return (Inl (Runtime_error (''Failed to parse command line options: '' @ what e)), fs, [])
      | Inr r \<Rightarrow>
          if opt_contains r ''help'' then Return (Inr None, fs, [])
          else let config = applyDefaultPaths h ServerConfig_default;
                   config = set_opt r opt_string ''config'' cfg_config_file_update config
            in obind (if cfg_config_file config \<noteq> [] \<and> fs (cfg_config_file config) \<noteq> None
                      then handle_config_file parse_stream dump2 writable h (cfg_config_file config) fs
                      else Return (config, fs)) (\<lambda>(config, fs).
               let config = apply_cli_overrides r config in
               (case validate config of
                  Undefined \<Rightarrow> Undefined
                | Throw e \<Rightarrow> Return (Inl e, fs, log_config config)
                | Return u \<Rightarrow> Return (Inr (Some config), fs, log_config config))))"

section \<open>Validation\<close>

definition config_valid :: "ServerConfig \<Rightarrow> bool" where
  "config_valid c \<longleftrightarrow> 1 \<le> uint (cfg_port c) \<and> cfg_thread_pool_size c \<in> {1..64} \<and>
     (cfg_enable_rate_limiter c \<longrightarrow> cfg_max_requests_per_minute c \<in> {1..10000}) \<and>
     cfg_max_batch_size c \<in> {1..1000} \<and>
     (cfg_enable_file_logging c \<longrightarrow>
        cfg_log_rotation_type c \<in> {''none'', ''size''} \<and>
        uint (cfg_log_max_file_size c div (1024 * 1024)) \<in> {1..1024} \<and>
        cfg_log_max_backup_files c \<in> {0..100})"

lemma check_range_Return [simp]: "check_range name v mn mx = Return () \<longleftrightarrow> mn \<le> v \<and> v \<le> mx"
  by (simp add: check_range_def not_less)

lemma validate_iff: "validate c = Return () \<longleftrightarrow> config_valid c"
proof -
  have port: "uint (cfg_port c) \<le> 65535" using uint_lt2p [of "cfg_port c"] by simp
  have sizes: "uint (MIN_LOG_FILE_SIZE div (1024 * 1024)) = 1" "uint (MAX_LOG_FILE_SIZE div (1024 * 1024)) = 1024"
    by (simp_all add: config_limits)
  show ?thesis
    unfolding validate_def config_valid_def sizes
    using port by (auto simp: outcome_simps config_limits split: if_splits)
qed



section \<open>Round trip\<close>

definition int_fields_ok :: "ServerConfig \<Rightarrow> bool" where
  \<comment> \<open>the int fields hold ints and the log size is a whole number of MB\<close>
  "int_fields_ok c \<longleftrightarrow>
     (\<forall>v\<in>{cfg_thread_pool_size c, cfg_max_requests_per_minute c, cfg_max_batch_size c, cfg_log_max_backup_files c}.
        - (2 ^ 31) \<le> v \<and> v < 2 ^ 31) \<and>
     cfg_log_max_file_size c div (1024 * 1024) * 1024 * 1024 = cfg_log_max_file_size c"

lemma json_at_to_json:
  "json_at (JObj (to_json c)) key = map_of (
     [(''host'', JStr (cfg_host c)), (''port'', JInt (uint (cfg_port c))),
      (''city_db'', JStr (cfg_city_db_path c)), (''asn_db'', JStr (cfg_asn_db_path c)),
      (''oui_db'', JStr (cfg_oui_db_path c)), (''threads'', JInt (cfg_thread_pool_size c)),
      (''enable_rate_limiter'', JBool (cfg_enable_rate_limiter c)),
      (''max_requests_per_minute'', JInt (cfg_max_requests_per_minute c)),
      (''max_batch_size'', JInt (cfg_max_batch_size c)),
      (''enable_api_auth'', JBool (cfg_enable_api_auth c)),
      (''api_keys_file'', JStr (cfg_api_keys_file c))] @
     (if cfg_default_api_key c \<noteq> [] then [(''default_api_key'', JStr (cfg_default_api_key c))] else []) @
     [(''enable_file_logging'', JBool (cfg_enable_file_logging c)),
      (''log_file'', JStr (cfg_log_file_path c)), (''log_enable_stdout'', JBool (cfg_log_enable_stdout c)),
      (''log_rotation'', JStr (cfg_log_rotation_type c)),
      (''log_max_file_size'', JInt (uint (cfg_log_max_file_size c div (1024 * 1024)))),
      (''log_max_backup_files'', JInt (cfg_log_max_backup_files c)),
      (''log_level'', JStr (cfg_log_level c))]) key"
  unfolding json_at_def to_json_def json.case by (subst map_of_obj_of) auto

lemma from_json_to_json:
  assumes "int_fields_ok c"
  shows "from_json ServerConfig_default (JObj (to_json c)) = Return (c\<lparr>cfg_config_file := []\<rparr>)"
proof -
  have ints: "cast_int (cfg_thread_pool_size c) = cfg_thread_pool_size c"
    "cast_int (cfg_max_requests_per_minute c) = cfg_max_requests_per_minute c"
    "cast_int (cfg_max_batch_size c) = cfg_max_batch_size c"
    "cast_int (cfg_log_max_backup_files c) = cfg_log_max_backup_files c"
    using assms by (simp_all add: int_fields_ok_def cast_int_small)
  have size: "word_of_int (uint (cfg_log_max_file_size c div (1024 * 1024))) * 1024 * 1024 = cfg_log_max_file_size c"
    using assms by (simp only: int_fields_ok_def word_of_int_uint)
  show ?thesis
    unfolding from_json_def read_str_def read_int_def read_bool_def read_size_def json_at_to_json
    using size by (cases "cfg_default_api_key c = []") (simp_all add: ints ServerConfig_default_def)
qed

text \<open>C21: What \<open>save_to_file\<close> writes, \<open>load_from_file\<close> reads back: for every configuration whose int
  fields hold 32-bit values and whose log size is a whole number of megabytes, saving and loading
  through a serialiser that its parser inverts gives the same configuration, but for the path of
  the configuration file itself, which is not stored. Other files are not touched.\<close>

theorem config_roundtrip:
  assumes "int_fields_ok c" and "writable path"
    and "dump2 (JObj (to_json c)) = Inr s" and "parse_stream (s @ [CHR 0x0A]) = Inr (JObj (to_json c))"
  shows "fst (save_to_file dump2 writable c path fs) \<and>
    load_from_file parse_stream (snd (save_to_file dump2 writable c path fs)) path =
      Return (c\<lparr>cfg_config_file := []\<rparr>) \<and>
    (\<forall>q. q \<noteq> path \<longrightarrow> snd (save_to_file dump2 writable c path fs) q = fs q)"
  using assms by (simp add: save_to_file_def load_from_file_def from_json_to_json)

theorem config_roundtrip_witness:
  "load_from_file (\<lambda>t. Inr (JObj (to_json ServerConfig_default)))
     (snd (save_to_file (\<lambda>j. Inr ''{}'') (\<lambda>p. True) ServerConfig_default ''c'' (\<lambda>p. None))) ''c'' =
   Return ServerConfig_default"
proof -
  have "int_fields_ok ServerConfig_default" by (simp add: int_fields_ok_def ServerConfig_default_def)
  from config_roundtrip [OF this, of "\<lambda>p. True" "''c''" "\<lambda>j. Inr ''{}''" "''{}''"
      "\<lambda>t. Inr (JObj (to_json ServerConfig_default))" "\<lambda>p. None"]
  show ?thesis by (simp add: ServerConfig_default_def)
qed

section \<open>Precedence\<close>

lemma validated_iff:
  "(case validate c of Undefined \<Rightarrow> Undefined | Throw e \<Rightarrow> Return (Inl e, fs, ls) | Return u \<Rightarrow> Return (Inr x, fs, ls)) =
     Return (Inr y, fs', ls') \<longleftrightarrow> validate c = Return () \<and> x = y \<and> fs = fs' \<and> ls = ls'"
  by (cases "validate c") auto

lemma parse_config_Some:
  assumes "parse_config parse_stream dump2 writable h cli fs = Return (Inr (Some c), fs', lines)"
  shows "\<exists>r c0. cli = Inr r \<and> c = apply_cli_overrides r c0 \<and> validate c = Return () \<and> lines = log_config c"
  using assms
  by (auto simp: parse_config_def outcome_simps Let_def case_prod_beta validated_iff split: sum.splits if_splits)

lemma set_opt_skip: "(\<And>f c. sel (upd f c) = sel c) \<Longrightarrow> sel (set_opt r get key upd c) = sel c"
  by (simp add: set_opt_def)

lemma set_opt_hit:
  "(\<And>f c. sel (upd f c) = f (sel c)) \<Longrightarrow> sel (set_opt r get key upd c) = (if opt_contains r key then get r key else sel c)"
  by (simp add: set_opt_def)

lemma set_opt_log_file:
  "cfg_enable_file_logging (set_opt r get key
     (\<lambda>f c. c\<lparr>cfg_log_file_path := f (cfg_log_file_path c), cfg_enable_file_logging := True\<rparr>) c) =
     (opt_contains r key \<or> cfg_enable_file_logging c)"
  by (simp add: set_opt_def)

lemmas set_opt_fields =
  set_opt_skip [of cfg_host] set_opt_hit [of cfg_host]
  set_opt_skip [of cfg_port] set_opt_hit [of cfg_port]
  set_opt_skip [of cfg_thread_pool_size] set_opt_hit [of cfg_thread_pool_size]
  set_opt_skip [of cfg_city_db_path] set_opt_hit [of cfg_city_db_path]
  set_opt_skip [of cfg_asn_db_path] set_opt_hit [of cfg_asn_db_path]
  set_opt_skip [of cfg_oui_db_path] set_opt_hit [of cfg_oui_db_path]
  set_opt_skip [of cfg_enable_rate_limiter] set_opt_hit [of cfg_enable_rate_limiter]
  set_opt_skip [of cfg_max_requests_per_minute] set_opt_hit [of cfg_max_requests_per_minute]
  set_opt_skip [of cfg_max_batch_size] set_opt_hit [of cfg_max_batch_size]
  set_opt_skip [of cfg_enable_api_auth] set_opt_hit [of cfg_enable_api_auth]
  set_opt_skip [of cfg_api_keys_file] set_opt_hit [of cfg_api_keys_file]
  set_opt_skip [of cfg_default_api_key] set_opt_hit [of cfg_default_api_key]
  set_opt_skip [of cfg_log_file_path] set_opt_hit [of cfg_log_file_path]
  set_opt_skip [of cfg_log_enable_stdout] set_opt_hit [of cfg_log_enable_stdout]
  set_opt_skip [of cfg_log_rotation_type] set_opt_hit [of cfg_log_rotation_type]
  set_opt_skip [of cfg_log_max_backup_files] set_opt_hit [of cfg_log_max_backup_files]
  set_opt_skip [of cfg_log_level] set_opt_hit [of cfg_log_level]
  set_opt_skip [of cfg_log_max_file_size] set_opt_hit [of cfg_log_max_file_size]
  set_opt_skip [of cfg_enable_file_logging] set_opt_hit [of cfg_enable_file_logging]
  set_opt_skip [of cfg_config_file]

lemma cli_fields:
  "cfg_host (apply_cli_overrides r c) =
     (if opt_contains r ''host'' then opt_string r ''host'' else cfg_host c)"
  "cfg_port (apply_cli_overrides r c) =
     (if opt_contains r ''port'' then opt_u16 r ''port'' else cfg_port c)"
  "cfg_thread_pool_size (apply_cli_overrides r c) =
     (if opt_contains r ''threads'' then opt_int r ''threads'' else cfg_thread_pool_size c)"
  "cfg_city_db_path (apply_cli_overrides r c) =
     (if opt_contains r ''city-db'' then opt_string r ''city-db'' else cfg_city_db_path c)"
  "cfg_asn_db_path (apply_cli_overrides r c) =
     (if opt_contains r ''asn-db'' then opt_string r ''asn-db'' else cfg_asn_db_path c)"
  "cfg_oui_db_path (apply_cli_overrides r c) =
     (if opt_contains r ''oui-db'' then opt_string r ''oui-db'' else cfg_oui_db_path c)"
  "cfg_enable_rate_limiter (apply_cli_overrides r c) =
     (if opt_contains r ''enable-rate-limiter'' then opt_bool r ''enable-rate-limiter'' else cfg_enable_rate_limiter c)"
  "cfg_max_requests_per_minute (apply_cli_overrides r c) =
     (if opt_contains r ''max-requests-per-minute'' then opt_int r ''max-requests-per-minute'' else cfg_max_requests_per_minute c)"
  "cfg_max_batch_size (apply_cli_overrides r c) =
     (if opt_contains r ''max-batch-size'' then opt_int r ''max-batch-size'' else cfg_max_batch_size c)"
  "cfg_enable_api_auth (apply_cli_overrides r c) =
     (if opt_contains r ''enable-api-auth'' then opt_bool r ''enable-api-auth'' else cfg_enable_api_auth c)"
  "cfg_api_keys_file (apply_cli_overrides r c) =
     (if opt_contains r ''api-keys-file'' then opt_string r ''api-keys-file'' else cfg_api_keys_file c)"
  "cfg_default_api_key (apply_cli_overrides r c) =
     (if opt_contains r ''default-api-key'' then opt_string r ''default-api-key'' else cfg_default_api_key c)"
  "cfg_log_file_path (apply_cli_overrides r c) =
     (if opt_contains r ''log-file'' then opt_string r ''log-file'' else cfg_log_file_path c)"
  "cfg_log_enable_stdout (apply_cli_overrides r c) =
     (if opt_contains r ''log-enable-stdout'' then opt_bool r ''log-enable-stdout'' else cfg_log_enable_stdout c)"
  "cfg_log_rotation_type (apply_cli_overrides r c) =
     (if opt_contains r ''log-rotation'' then opt_string r ''log-rotation'' else cfg_log_rotation_type c)"
  "cfg_log_max_backup_files (apply_cli_overrides r c) =
     (if opt_contains r ''log-max-backups'' then opt_int r ''log-max-backups'' else cfg_log_max_backup_files c)"
  "cfg_log_level (apply_cli_overrides r c) =
     (if opt_contains r ''log-level'' then opt_string r ''log-level'' else cfg_log_level c)"
  "cfg_log_max_file_size (apply_cli_overrides r c) =
     (if opt_contains r ''log-max-size'' then opt_size r ''log-max-size'' * 1024 * 1024 else cfg_log_max_file_size c)"
  "cfg_enable_file_logging (apply_cli_overrides r c) =
     (opt_contains r ''log-file'' \<or> (if opt_contains r ''enable-file-logging'' then opt_bool r ''enable-file-logging''
        else cfg_enable_file_logging c))"
  "cfg_config_file (apply_cli_overrides r c) = cfg_config_file c"
  by (simp_all add: apply_cli_overrides_def Let_def set_opt_log_file set_opt_fields)

text \<open>C20: A configuration that \<open>parse\<close> returns is valid, and every option given on the command line has
  the value of the command line, whatever the configuration file says; naming a log file switches
  file logging on.\<close>

theorem parse_config_sound:
  assumes "parse_config parse_stream dump2 writable h (Inr r) fs = Return (Inr (Some c), fs', lines)"
  shows "config_valid c \<and>
    (opt_contains r ''host'' \<longrightarrow> cfg_host c = opt_string r ''host'') \<and>
    (opt_contains r ''port'' \<longrightarrow> cfg_port c = opt_u16 r ''port'') \<and>
    (opt_contains r ''threads'' \<longrightarrow> cfg_thread_pool_size c = opt_int r ''threads'') \<and>
    (opt_contains r ''city-db'' \<longrightarrow> cfg_city_db_path c = opt_string r ''city-db'') \<and>
    (opt_contains r ''asn-db'' \<longrightarrow> cfg_asn_db_path c = opt_string r ''asn-db'') \<and>
    (opt_contains r ''oui-db'' \<longrightarrow> cfg_oui_db_path c = opt_string r ''oui-db'') \<and>
    (opt_contains r ''enable-rate-limiter'' \<longrightarrow> cfg_enable_rate_limiter c = parseBoolString (opt_string r ''enable-rate-limiter'')) \<and>
    (opt_contains r ''max-requests-per-minute'' \<longrightarrow> cfg_max_requests_per_minute c = opt_int r ''max-requests-per-minute'') \<and>
    (opt_contains r ''max-batch-size'' \<longrightarrow> cfg_max_batch_size c = opt_int r ''max-batch-size'') \<and>
    (opt_contains r ''enable-api-auth'' \<longrightarrow> cfg_enable_api_auth c = parseBoolString (opt_string r ''enable-api-auth'')) \<and>
    (opt_contains r ''api-keys-file'' \<longrightarrow> cfg_api_keys_file c = opt_string r ''api-keys-file'') \<and>
    (opt_contains r ''default-api-key'' \<longrightarrow> cfg_default_api_key c = opt_string r ''default-api-key'') \<and>
    (opt_contains r ''log-file'' \<longrightarrow> cfg_log_file_path c = opt_string r ''log-file'') \<and>
    (opt_contains r ''log-enable-stdout'' \<longrightarrow> cfg_log_enable_stdout c = parseBoolString (opt_string r ''log-enable-stdout'')) \<and>
    (opt_contains r ''log-rotation'' \<longrightarrow> cfg_log_rotation_type c = opt_string r ''log-rotation'') \<and>
    (opt_contains r ''log-max-backups'' \<longrightarrow> cfg_log_max_backup_files c = opt_int r ''log-max-backups'') \<and>
    (opt_contains r ''log-level'' \<longrightarrow> cfg_log_level c = opt_string r ''log-level'') \<and>
    (opt_contains r ''log-max-size'' \<longrightarrow> cfg_log_max_file_size c = opt_size r ''log-max-size'' * 1024 * 1024) \<and>
    (opt_contains r ''log-file'' \<longrightarrow> cfg_enable_file_logging c) \<and>
    (opt_contains r ''enable-file-logging'' \<and> \<not> opt_contains r ''log-file'' \<longrightarrow>
       cfg_enable_file_logging c = parseBoolString (opt_string r ''enable-file-logging''))"
proof -
  obtain c0 where c: "c = apply_cli_overrides r c0" "validate c = Return ()"
    using parse_config_Some [OF assms] by auto
  then show ?thesis
    by (simp add: validate_iff cli_fields opt_bool_def)
qed

definition no_options :: ParseResult where
  "no_options = \<lparr>opt_contains = (\<lambda>k. False), opt_string = (\<lambda>k. []), opt_int = (\<lambda>k. 0), opt_u16 = (\<lambda>k. 0), opt_size = (\<lambda>k. 0)\<rparr>"

definition some_host :: Host where
  "some_host = \<lparr>env_HOME = Some ''/root'', pw_dir = None\<rparr>"

lemma no_options_id: "apply_cli_overrides no_options c = c"
  by (simp add: apply_cli_overrides_def set_opt_def no_options_def Let_def)

lemma default_valid: "config_valid ServerConfig_default"
  by (simp add: config_valid_def ServerConfig_default_def)

theorem parse_config_sound_witness:
  "\<exists>c lines. parse_config (\<lambda>s. Inl (Json_exception [])) (\<lambda>j. Inr []) (\<lambda>p. True) some_host
     (Inr (no_options\<lparr>opt_contains := \<lambda>k. k = ''log-file'', opt_string := \<lambda>k. ''x.log''\<rparr>)) (\<lambda>p. None) = Return (Inr (Some c), (\<lambda>p. None), lines) \<and>
     cfg_enable_file_logging c"
proof -
  let ?r = "no_options\<lparr>opt_contains := \<lambda>k. k = ''log-file'', opt_string := \<lambda>k. ''x.log''\<rparr>"
  define c where "c = apply_cli_overrides ?r (applyDefaultPaths some_host ServerConfig_default)"
  have "c = (applyDefaultPaths some_host ServerConfig_default)\<lparr>cfg_log_file_path := ''x.log'', cfg_enable_file_logging := True\<rparr>"
    by (simp add: c_def apply_cli_overrides_def set_opt_def no_options_def Let_def)
  then have "config_valid c"
    by (simp add: config_valid_def applyDefaultPaths_def ServerConfig_default_def)
  then have v: "validate c = Return ()" by (simp add: validate_iff)
  have p: "parse_config (\<lambda>s. Inl (Json_exception [])) (\<lambda>j. Inr []) (\<lambda>p. True) some_host (Inr ?r) (\<lambda>p. None) =
      Return (Inr (Some c), (\<lambda>p. None), log_config c)"
    using v by (simp add: parse_config_def Let_def c_def set_opt_def no_options_def)
  from parse_config_sound [OF p] p show ?thesis by simp
qed

text \<open>Once a configuration file exists and is not empty, the default database paths are lost: a file
  that sets neither database nor log paths leaves the three database paths empty, where the same
  start without the file uses the files below \<open>$HOME/.config/ip_local\<close>.\<close>

lemma config_file_drops_default_paths:
  "\<exists>c lines c' lines'.
     parse_config (\<lambda>s. Inr (JObj [(''host'', JStr ''127.0.0.1'')])) (\<lambda>j. Inr []) (\<lambda>p. True) some_host
       (Inr no_options) (\<lambda>p. Some ''{...}'') = Return (Inr (Some c), (\<lambda>p. Some ''{...}''), lines) \<and>
     cfg_city_db_path c = [] \<and> cfg_asn_db_path c = [] \<and> cfg_oui_db_path c = [] \<and>
     parse_config (\<lambda>s. Inr (JObj [(''host'', JStr ''127.0.0.1'')])) (\<lambda>j. Inr []) (\<lambda>p. True) some_host
       (Inr no_options) (\<lambda>p. None) = Return (Inr (Some c'), (\<lambda>p. None), lines') \<and>
     cfg_city_db_path c' = ''/root/.config/ip_local/databases/GeoLite2-City.mmdb''"
proof -
  let ?c = "ServerConfig_default\<lparr>cfg_host := ''127.0.0.1''\<rparr>" and ?c' = "applyDefaultPaths some_host ServerConfig_default"
  have path: "default_config_file some_host = ''/root/.config/ip_local/config.json''"
    by (simp add: default_config_file_def base_dir_def path_append_def APP_DIR_def get_home_def some_host_def)
  have city: "default_city_db_path some_host = ''/root/.config/ip_local/databases/GeoLite2-City.mmdb''"
    by (simp add: default_city_db_path_def database_dir_def base_dir_def path_append_def APP_DIR_def get_home_def some_host_def)
  have v: "validate ?c = Return ()" "validate ?c' = Return ()"
    by (simp_all add: validate_iff config_valid_def ServerConfig_default_def applyDefaultPaths_def)
  have load: "from_json ServerConfig_default (JObj [(''host'', JStr ''127.0.0.1'')]) = Return ?c"
    by (simp add: from_json_def read_str_def read_int_def read_bool_def read_size_def json_at_def)
  have cf: "cfg_config_file ?c' = ''/root/.config/ip_local/config.json''"
    by (simp add: applyDefaultPaths_def path)
  have skip: "set_opt no_options opt_string ''config'' cfg_config_file_update ?c' = ?c'" "\<not> opt_contains no_options ''help''"
    by (simp_all add: set_opt_def no_options_def)
  have "parse_config (\<lambda>s. Inr (JObj [(''host'', JStr ''127.0.0.1'')])) (\<lambda>j. Inr []) (\<lambda>p. True) some_host
      (Inr no_options) (\<lambda>p. Some ''{...}'') = Return (Inr (Some ?c), (\<lambda>p. Some ''{...}''), log_config ?c)"
    by (simp add: parse_config_def skip cf handle_config_file_def load_from_file_def load no_options_id v Let_def)
  moreover have "parse_config (\<lambda>s. Inr (JObj [(''host'', JStr ''127.0.0.1'')])) (\<lambda>j. Inr []) (\<lambda>p. True) some_host
      (Inr no_options) (\<lambda>p. None) = Return (Inr (Some ?c'), (\<lambda>p. None), log_config ?c')"
    by (simp add: parse_config_def skip no_options_id v Let_def)
  moreover have "cfg_city_db_path ?c' = ''/root/.config/ip_local/databases/GeoLite2-City.mmdb''"
    by (simp add: applyDefaultPaths_def city)
  ultimately show ?thesis by (intro exI [of _ ?c] exI) (simp add: ServerConfig_default_def)
qed

text \<open>Out-of-range numbers of a configuration file are converted before they are checked: a port of
  70000 is read as 4464 and passes validation, and a log size of \<open>2^44 + 1\<close> MB as one MB.\<close>

lemma config_numbers_wrap:
  "\<exists>c. from_json ServerConfig_default
      (JObj [(''log_max_file_size'', JInt (2 ^ 44 + 1)), (''port'', JInt 70000)]) = Return c \<and>
    validate c = Return () \<and> uint (cfg_port c) = 4464 \<and> uint (cfg_log_max_file_size c) = 1024 * 1024"
  by (simp add: from_json_def read_str_def read_int_def read_bool_def read_size_def json_at_def
      validate_iff config_valid_def ServerConfig_default_def)

text \<open>The configuration log shows at most eight characters of the default API key, followed by
  dots; a key of up to eight characters is written to the log in full.\<close>

lemma log_config_key:
  assumes "cfg_enable_api_auth c" and "cfg_default_api_key c \<noteq> []"
  shows "''  Default API Key: '' @ take 8 (cfg_default_api_key c) @ ''...'' \<in> set (log_config c) \<and>
    (length (cfg_default_api_key c) \<le> 8 \<longrightarrow>
       ''  Default API Key: '' @ cfg_default_api_key c @ ''...'' \<in> set (log_config c))"
  using assms by (simp add: log_config_def substr_def Let_def)

section \<open>Starting again\<close>

lemma cli_again: "apply_cli_overrides r ((apply_cli_overrides r c)\<lparr>cfg_config_file := p\<rparr>) = (apply_cli_overrides r c)\<lparr>cfg_config_file := p\<rparr>"
  by (rule ServerConfig.equality) (simp_all add: cli_fields)

lemma whole_megabytes: "x * 1024 * 1024 div (1024 * 1024) * 1024 * 1024 = x * 1024 * (1024 :: u64)"
proof -
  have "x * 1024 * 1024 mod (1048576 :: u64) = 0"
  proof (rule word_uint_eqI)
    have "uint (x * 1024 * 1024) = uint x * 1048576 mod 2 ^ 64"
      by (simp add: uint_word_ariths mod_mult_left_eq mult.assoc)
    then show "uint (x * 1024 * 1024 mod (1048576 :: u64)) = uint (0 :: u64)"
      by (simp add: uint_mod_distrib mod_mod_cancel)
  qed
  with div_mult_mod_eq [of "x * 1024 * 1024" "1048576 :: u64"] show ?thesis by (simp add: mult.assoc)
qed

definition config_path :: "Host \<Rightarrow> ParseResult \<Rightarrow> string" where
  \<comment> \<open>the configuration file a command line refers to\<close>
  "config_path h r = (if opt_contains r ''config'' then opt_string r ''config'' else default_config_file h)"

definition cli_ints_ok :: "ParseResult \<Rightarrow> bool" where
  \<comment> \<open>the values of the int options are ints\<close>
  "cli_ints_ok r \<longleftrightarrow> (\<forall>k. - (2 ^ 31) \<le> opt_int r k \<and> opt_int r k < 2 ^ 31)"

lemma cli_int_fields: "cli_ints_ok r \<Longrightarrow> int_fields_ok c \<Longrightarrow> int_fields_ok (apply_cli_overrides r c)"
  using whole_megabytes [of "opt_size r ''log-max-size''"] by (simp add: int_fields_ok_def cli_ints_ok_def cli_fields)

lemma parse_first_start:
  assumes "fs (config_path h r) = None"
    and "parse_config parse_stream dump2 writable h (Inr r) fs = Return (Inr (Some c), fs', lines)"
  shows "fs' = fs \<and> cfg_config_file c = config_path h r \<and> (cli_ints_ok r \<longrightarrow> int_fields_ok c) \<and>
    \<not> opt_contains r ''help'' \<and> validate c = Return () \<and> apply_cli_overrides r (c\<lparr>cfg_config_file := p\<rparr>) = c\<lparr>cfg_config_file := p\<rparr>"
proof -
  let ?c = "set_opt r opt_string ''config'' cfg_config_file_update (applyDefaultPaths h ServerConfig_default)"
  have path: "cfg_config_file ?c = config_path h r" by (simp add: set_opt_def config_path_def applyDefaultPaths_def)
  have ints: "int_fields_ok ?c" by (simp add: int_fields_ok_def set_opt_def applyDefaultPaths_def ServerConfig_default_def)
  from assms path have "c = apply_cli_overrides r ?c" "validate c = Return ()" "fs' = fs" "\<not> opt_contains r ''help''"
    by (auto simp: parse_config_def Let_def validated_iff split: if_splits)
  with path ints cli_int_fields [of r ?c] cli_again [where r = r and c = ?c and p = p] show ?thesis by (simp add: cli_fields)
qed

lemma parse_saved_config:
  assumes "\<not> opt_contains r ''help''" "config_path h r \<noteq> []" "fs (config_path h r) = Some (s @ [CHR 0x0A])"
    and "parse_stream (s @ [CHR 0x0A]) = Inr (JObj (to_json c))" "int_fields_ok c" "validate c = Return ()"
    and "apply_cli_overrides r (c\<lparr>cfg_config_file := []\<rparr>) = c\<lparr>cfg_config_file := []\<rparr>"
  shows "\<exists>lines. parse_config parse_stream dump2 writable h (Inr r) fs = Return (Inr (Some (c\<lparr>cfg_config_file := []\<rparr>)), fs, lines)"
proof -
  have path: "cfg_config_file (set_opt r opt_string ''config'' cfg_config_file_update (applyDefaultPaths h ServerConfig_default)) = config_path h r"
    by (simp add: set_opt_def config_path_def applyDefaultPaths_def)
  have "handle_config_file parse_stream dump2 writable h (config_path h r) fs = Return (c\<lparr>cfg_config_file := []\<rparr>, fs)"
    using assms(3-5) by (simp add: handle_config_file_def load_from_file_def from_json_to_json)
  moreover have "validate (c\<lparr>cfg_config_file := []\<rparr>) = Return ()"
    using assms(6) by (simp add: validate_iff config_valid_def)
  ultimately show ?thesis using assms(1-3,7) by (simp add: parse_config_def Let_def path)
qed

end
