(* ===== verification/Http_Server.thy ===== *)
theory Http_Server
  imports Http Password_Handler Config
begin

text \<open>
  \<open>http_server.cpp\<close>: the server object, its request gate (authentication, client address, rate
  limit), the endpoint handlers and the routing table. A handler maps a request and a response to
  the response, or the exception that escapes to the HTTP library, and the server and world it
  leaves behind. The threads of a large batch run their lookups in the order \<open>env_sched\<close> gives.
\<close>

section \<open>State\<close>

type_synonym handler = "string \<Rightarrow> World \<Rightarrow> (LookupResult \<times> World) outcome"

record IPGeoHTTPServer =
  srv_host :: string
  srv_port :: u16
  thread_pool_size :: int
  enable_rate_limiter :: bool
  max_batch_size :: int
  enable_api_auth :: bool
  lookup_handler :: "handler option"
  mac_lookup_handler :: "handler option"
  cache_stats_handler :: "(World \<Rightarrow> CacheStats) option"
  rate_limiter :: "RateLimiter option"
  api_auth :: "APIAuth option"
  metrics :: Metrics
  password_handler :: PasswordHandler

definition CLEANUP_INTERVAL_SECONDS :: int where
  "CLEANUP_INTERVAL_SECONDS = 300"

definition DEFAULT_MAX_IP_RECORDS :: nat where
  "DEFAULT_MAX_IP_RECORDS = 10000"

definition IPGeoHTTPServer_new :: "Env \<Rightarrow> file_system \<Rightarrow> ServerConfig \<Rightarrow> time_point \<Rightarrow> IPGeoHTTPServer" where
  "IPGeoHTTPServer_new env files config now =
     (let auth0 = APIAuth_new;
          auth1 = (if cfg_api_keys_file config \<noteq> []
                   then snd (load_keys_from_file (env_sha256 env) files (cfg_api_keys_file config) auth0) else auth0);
          auth2 = (if cfg_default_api_key config \<noteq> []
                   then add_key (env_sha256 env) (cfg_default_api_key config) auth1 else auth1)
      in \<lparr>srv_host = cfg_host config, srv_port = cfg_port config,
          thread_pool_size = cfg_thread_pool_size config,
          enable_rate_limiter = cfg_enable_rate_limiter config,
          max_batch_size = cfg_max_batch_size config, enable_api_auth = cfg_enable_api_auth config,
          lookup_handler = None, mac_lookup_handler = None, cache_stats_handler = None,
          rate_limiter = (if cfg_enable_rate_limiter config
            then Some (RateLimiter_new (cfg_max_requests_per_minute config) (seconds 60) DEFAULT_MAX_IP_RECORDS)
            else None),
          api_auth = (if cfg_enable_api_auth config then Some auth2 else None),
          metrics = Metrics_new now,
          password_handler = \<lparr>max_batch = cfg_max_batch_size config\<rparr>\<rparr>)"

definition set_lookup_handler :: "handler \<Rightarrow> IPGeoHTTPServer \<Rightarrow> IPGeoHTTPServer" where
  "set_lookup_handler h srv = srv\<lparr>lookup_handler := Some h\<rparr>"

definition set_mac_lookup_handler :: "handler \<Rightarrow> IPGeoHTTPServer \<Rightarrow> IPGeoHTTPServer" where
  "set_mac_lookup_handler h srv = srv\<lparr>mac_lookup_handler := Some h\<rparr>"

definition set_cache_stats_handler :: "(World \<Rightarrow> CacheStats) \<Rightarrow> IPGeoHTTPServer \<Rightarrow> IPGeoHTTPServer" where
  "set_cache_stats_handler h srv = srv\<lparr>cache_stats_handler := Some h\<rparr>"

section \<open>The request gate\<close>

definition authenticate_request :: "Env \<Rightarrow> IPGeoHTTPServer \<Rightarrow> Request \<Rightarrow> Response \<Rightarrow> (bool \<times> Response) outcome" where
  "authenticate_request env srv req res =
     (case (enable_api_auth srv, api_auth srv) of
        (True, Some auth) \<Rightarrow>
          (let auth_header = get_header_value req ''Authorization''; prefix = ''Bearer '' in
           if auth_header = []
           then obind (send_error_response (env_dump env) 401 ''Unauthorized''
                         ''Missing API key in Authorization header'' res) (\<lambda>res.
                  Return (False, set_header ''WWW-Authenticate'' ''Bearer'' res))
           else if \<not> starts_with auth_header prefix
           then obind (send_error_response (env_dump env) 401 ''Unauthorized''
                         ''Invalid Authorization header format. Expected: Bearer <api_key>'' res) (\<lambda>res.
                  Return (False, set_header ''WWW-Authenticate'' ''Bearer'' res))
           else if \<not> is_valid (env_sha256 env) auth (drop (length prefix) auth_header)
           then obind (send_error_response (env_dump env) 401 ''Unauthorized'' ''Invalid API key'' res) (\<lambda>res.
                  Return (False, res))
           else Return (True, res))
      | _ \<Rightarrow> Return (True, res))"

definition blanks :: "char set" where
  "blanks = {CHR '' '', CHR 0x09}"

definition get_real_client_ip :: "Request \<Rightarrow> string" where
  "get_real_client_ip req =
     (let xff = get_header_value req ''X-Forwarded-For'' in
      if xff \<noteq> []
      then (case find_char (CHR '','') xff of
              Some comma_pos \<Rightarrow>
                (let first_ip = substr xff 0 comma_pos in
                 case (find_first_not_of blanks first_ip, find_last_not_of blanks first_ip) of
                   (Some start, Some end) \<Rightarrow> substr first_ip start (end - start + 1)
                 | _ \<Rightarrow> first_ip)
            | None \<Rightarrow> xff)
      else let xri = get_header_value req ''X-Real-IP'' in
        if xri \<noteq> [] then xri else remote_addr req)"

definition prepare_request :: "Env \<Rightarrow> IPGeoHTTPServer \<Rightarrow> Request \<Rightarrow> Response \<Rightarrow> World \<Rightarrow>
    ((exn + string option \<times> Response) \<times> IPGeoHTTPServer \<times> World) outcome" where
  \<comment> \<open>the client address, or none when the response is already written\<close>
  "prepare_request env srv req res w =
     (let refused = (\<lambda>r srv w. (case r of
              Undefined \<Rightarrow> Undefined
            | Throw e \<Rightarrow> Return (Inl e, srv, w)
            | Return res \<Rightarrow> Return (Inr (None, res), srv, w))) in
      (case authenticate_request env srv req res of
        Undefined \<Rightarrow> Undefined
      | Throw e \<Rightarrow> Return (Inl e, srv, w)
      | Return (ok, res) \<Rightarrow>
          if \<not> ok then Return (Inr (None, res), srv, w)
          else let client_ip = get_real_client_ip req in
            if client_ip = []
            then refused (send_error_response (env_dump env) 400 ''Bad Request''
                            ''Unable to determine source IP address'' res) srv w
            else if \<not> enable_rate_limiter srv then Return (Inr (Some client_ip, res), srv, w)
            else (case rate_limiter srv of
              None \<Rightarrow> Undefined
            | Some rl \<Rightarrow>
                obind (is_allowed (env_steady env (tick w)) (env_steady env (tick w + 1)) client_ip rl) (\<lambda>(allowed, rl).
                  if allowed then Return (Inr (Some client_ip, res), srv\<lparr>rate_limiter := Some rl\<rparr>, ticked 2 w)
                  else let (remaining, rl) = get_remaining (env_steady env (tick w + 2)) client_ip rl;
                           err = JObj (obj_of [(''error'', JStr ''Rate limit exceeded''), (''remaining'', JInt remaining)])
                       in refused (obind (send_json_response (env_dump env) err 429 res) (\<lambda>res.
                                     Return (set_header ''Retry-After'' ''60'' res)))
                            (srv\<lparr>rate_limiter := Some rl\<rparr>) (ticked 3 w)))))"

section \<open>Service endpoints\<close>

definition quoted :: "string \<Rightarrow> string" where
  "quoted s = CHR 0x27 # s @ [CHR 0x27]"

definition handle_root :: "Env \<Rightarrow> Response \<Rightarrow> Response outcome" where
  "handle_root env res =
     obind (of_sum (env_dump env (JObj (obj_of [
        (''service'', JStr ''IP Geolocation & AS Lookup Service''), (''version'', JStr ''2.0.0''),
        (''endpoints'', JArr [JStr ''/'', JStr ''/lookup'', JStr ''/health'', JStr ''/password/generate'']),
        (''description'', JStr (''Use /lookup with '' @ quoted ''ip='' @ '' or '' @ quoted ''mac='' @
           '' parameter for single queries, or '' @ quoted ''ips'' @ ''/'' @ quoted ''macs'' @
           '' array for batch queries''))])))) (\<lambda>s.
       Return (set_content s ''application/json'' res))"

definition round_half :: "real \<Rightarrow> real" where
  \<comment> \<open>\<open>std::round\<close>: to the nearest integer, halves away from zero\<close>
  "round_half x = (if x \<ge> 0 then of_int \<lfloor>x + 1 / 2\<rfloor> else - of_int \<lfloor>- x + 1 / 2\<rfloor>)"

definition rounded :: "(real \<Rightarrow> real) \<Rightarrow> real \<Rightarrow> real \<Rightarrow> json" where
  "rounded fl k x = JReal (fl (round_half (fl (x * k)) / k))"

definition handle_health :: "Env \<Rightarrow> IPGeoHTTPServer \<Rightarrow> Response \<Rightarrow> World \<Rightarrow> (Response \<times> World) outcome" where
  "handle_health env srv res w =
     obind (get_stats (env_fl env) (env_steady env (tick w)) (metrics srv)) (\<lambda>stats.
       let fl = env_fl env;
           cache = (case cache_stats_handler srv of
              None \<Rightarrow> []
            | Some h \<Rightarrow> (let cache = h w in
                [(''cache'', JObj (obj_of [(''hits'', JInt (uint (hits cache))), (''misses'', JInt (uint (misses cache))),
                   (''hit_rate_percent'', rounded fl 100 (hit_rate fl cache)),
                   (''evictions'', JInt (uint (evictions cache))),
                   (''expired_entries'', JInt (uint (expired_entries cache))),
                   (''memory_usage_mb'', rounded fl 100 (get_memory_usage_mb fl cache))]))]));
           health = obj_of ([(''status'', JStr ''ok''), (''timestamp'', JInt (env_time env (tick w + 1))),
              (''metrics'', JObj (obj_of [(''total_requests'', JInt (uint (stat_total_requests stats))),
                 (''qps'', rounded fl 100 (current_qps stats)),
                 (''avg_latency_ms'', rounded fl 1000 (avg_latency_ms stats)),
                 (''p50_latency_ms'', rounded fl 1000 (p50_latency_ms stats)),
                 (''p95_latency_ms'', rounded fl 1000 (p95_latency_ms stats)),
                 (''p99_latency_ms'', rounded fl 1000 (p99_latency_ms stats))]))] @ cache @
              [(''errors'', JObj (obj_of [(''total'', JInt (uint (stat_total_errors stats))),
                 (''rate_percent'', rounded fl 100 (error_rate stats))])),
               (''system'', JObj (obj_of [(''uptime_seconds'', JInt (uint (uptime_seconds stats)))]))])
       in obind (of_sum (env_dump env (JObj health))) (\<lambda>s.
            Return (set_content s ''application/json'' res, ticked 2 w)))"

section \<open>Single lookup\<close>

type_synonym result = "IPGeoHTTPServer handled"

definition lookup_get_failed :: "Env \<Rightarrow> Response \<Rightarrow> IPGeoHTTPServer \<Rightarrow> World \<Rightarrow> exn \<Rightarrow> result" where
  \<comment> \<open>the \<open>catch\<close> clause of \<open>handle_lookup_get\<close>\<close>
  "lookup_get_failed env res srv w e =
     conclude (obind (of_sum (env_dump env (JObj [(''error'', JStr (what e))]))) (\<lambda>s.
         Return (set_content s ''application/json'' (res\<lparr>status := 500\<rparr>))))
       srv (srv\<lparr>metrics := record_error (metrics srv)\<rparr>) w"

definition timed_lookup :: "Env \<Rightarrow> handler \<Rightarrow> string \<Rightarrow> World \<Rightarrow> (LookupResult \<times> double \<times> World) outcome" where
  \<comment> \<open>start a \<open>ScopedTimer\<close>, call the handler, read the elapsed time\<close>
  "timed_lookup env h q w =
     obind (h q (ticked 1 w)) (\<lambda>(result, w').
       Return (result, ScopedTimer_elapsed (env_fl env) (env_hrc env (tick w)) (env_hrc env (tick w')), ticked 1 w'))"

definition count_request :: "Env \<Rightarrow> double \<Rightarrow> IPGeoHTTPServer \<Rightarrow> World \<Rightarrow> IPGeoHTTPServer \<times> World" where
  "count_request env latency srv w =
     (srv\<lparr>metrics := record_request (env_steady env (tick w)) latency (metrics srv)\<rparr>, ticked 1 w)"

definition handle_lookup_get :: "Env \<Rightarrow> IPGeoHTTPServer \<Rightarrow> Request \<Rightarrow> Response \<Rightarrow> World \<Rightarrow> result" where
  "handle_lookup_get env srv req res w =
     obind (prepare_request env srv req res w) (\<lambda>(prepared, srv, w).
       (case prepared of
         Inl e \<Rightarrow> Return (Inl e, srv, w)
       | Inr (None, res) \<Rightarrow> Return (Inr res, srv, w)
       | Inr (Some client_ip, res) \<Rightarrow>
           let mac_param = get_param_value req ''mac''; ip_param = get_param_value req ''ip'' in
           if mac_param \<noteq> [] \<and> ip_param \<noteq> []
           then conclude (send_error_response (env_dump env) 400 ''Bad Request''
                  (''Cannot specify both '' @ quoted ''ip'' @ '' and '' @ quoted ''mac'' @ '' parameters simultaneously'') res)
                  srv srv w
           else let is_mac = (mac_param \<noteq> []);
                    query = (if is_mac then mac_param else if ip_param = [] then client_ip else ip_param);
                    h = (if is_mac then mac_lookup_handler srv else lookup_handler srv);
                    valid = (if is_mac then isValidMacFormat query
                             else isValidIpFormat (env_inet_pton env) (env_getaddrinfo env) query);
                    type = (if is_mac then ''MAC'' else ''IP'')
             in if \<not> valid
                then try_response (lookup_get_failed env res srv w)
                       (send_error_response (env_dump env) 400 ''Bad Request''
                          (if is_mac then ''Invalid MAC address format'' else ''Invalid IP address format'') res) srv w
                else (case h of
                  None \<Rightarrow> try_response (lookup_get_failed env res srv w)
                    (send_error_response (env_dump env) 500 ''Internal Server Error''
                       (type @ '' lookup handler not configured'') res) srv w
                | Some h \<Rightarrow>
                    (case timed_lookup env h query w of
                       Undefined \<Rightarrow> Undefined
                     | Throw e \<Rightarrow> lookup_get_failed env res srv (ticked 1 w) e
                     | Return (result, latency, w) \<Rightarrow>
                         let (srv, w) = count_request env latency srv w in
                         (case env_dump env (lr_data result) of
                           Inl e \<Rightarrow> lookup_get_failed env res srv w e
                         | Inr s \<Rightarrow> Return (Inr (set_content s ''application/json'' res), srv, w))))))"

section \<open>Batch lookup\<close>

fun lookup_post_failed :: "Env \<Rightarrow> Response \<Rightarrow> IPGeoHTTPServer \<Rightarrow> World \<Rightarrow> exn \<Rightarrow> result" where
  \<comment> \<open>the \<open>catch\<close> clauses of \<open>handle_lookup_post\<close>\<close>
  "lookup_post_failed env res srv w (Json_exception msg) =
     conclude (send_error_response (env_dump env) 400 ''Bad Request'' (''Invalid JSON: '' @ msg) res) srv srv w"
| "lookup_post_failed env res srv w e =
     conclude (send_error_response (env_dump env) 500 ''Internal Server Error'' (what e) res)
       srv (srv\<lparr>metrics := record_error (metrics srv)\<rparr>) w"

fun batch_items :: "(string \<Rightarrow> bool) \<Rightarrow> json list \<Rightarrow> string list" where
  \<comment> \<open>the string items that pass the validator\<close>
  "batch_items validator [] = []"
| "batch_items validator (item # items) =
     (case item of
        JStr s \<Rightarrow> if validator s then s # batch_items validator items else batch_items validator items
      | _ \<Rightarrow> batch_items validator items)"

text \<open>
  The loops over the queries leave the results so far and the state at the point of an exception:
  \<open>(results, server, world, exception)\<close>.
\<close>

type_synonym batch = "(json list \<times> IPGeoHTTPServer \<times> World \<times> exn option) outcome"

fun batch_sequential :: "Env \<Rightarrow> handler \<Rightarrow> string list \<Rightarrow> json list \<Rightarrow> IPGeoHTTPServer \<Rightarrow> World \<Rightarrow> batch" where
  "batch_sequential env h [] results srv w = Return (results, srv, w, None)"
| "batch_sequential env h (q # qs) results srv w =
     (case timed_lookup env h q w of
        Undefined \<Rightarrow> Undefined
      | Throw e \<Rightarrow> Return (results, srv, ticked 1 w, Some e)
      | Return (result, latency, w) \<Rightarrow>
          let (srv, w) = count_request env latency srv w in
          batch_sequential env h qs (results @ [lr_data result]) srv w)"

fun async_run :: "Env \<Rightarrow> handler \<Rightarrow> string list \<Rightarrow> nat list \<Rightarrow> (nat \<Rightarrow> (exn + LookupResult \<times> double) option) \<Rightarrow>
    World \<Rightarrow> ((nat \<Rightarrow> (exn + LookupResult \<times> double) option) \<times> World) outcome" where
  \<comment> \<open>the threads of \<open>std::async\<close>, one lookup after the other in the given order; a future holds a
     value or an exception\<close>
  "async_run env h qs [] futures w = Return (futures, w)"
| "async_run env h qs (i # sched) futures w =
     (case timed_lookup env h (qs ! i) w of
        Undefined \<Rightarrow> Undefined
      | Throw e \<Rightarrow> async_run env h qs sched (futures(i \<mapsto> Inl e)) (ticked 1 w)
      | Return (result, latency, w) \<Rightarrow> async_run env h qs sched (futures(i \<mapsto> Inr (result, latency))) w)"

fun async_collect :: "Env \<Rightarrow> (nat \<Rightarrow> (exn + LookupResult \<times> double) option) \<Rightarrow> nat list \<Rightarrow> json list \<Rightarrow>
    IPGeoHTTPServer \<Rightarrow> World \<Rightarrow> batch" where
  \<comment> \<open>\<open>future.get()\<close> in the order of the queries\<close>
  "async_collect env futures [] results srv w = Return (results, srv, w, None)"
| "async_collect env futures (i # is) results srv w =
     (case futures i of
        None \<Rightarrow> Undefined
      | Some (Inl e) \<Rightarrow> Return (results, srv, w, Some e)
      | Some (Inr (result, latency)) \<Rightarrow>
          let (srv, w) = count_request env latency srv w in
          async_collect env futures is (results @ [lr_data result]) srv w)"

definition run_batch :: "Env \<Rightarrow> handler \<Rightarrow> string list \<Rightarrow> IPGeoHTTPServer \<Rightarrow> World \<Rightarrow> batch" where
  "run_batch env h query_list srv w =
     (if length query_list \<le> 10 then batch_sequential env h query_list [] srv w
      else obind (async_run env h query_list (env_sched env (length query_list)) (\<lambda>_. None) w) (\<lambda>(futures, w).
             async_collect env futures [0..<length query_list] [] srv w))"

definition process_batch :: "Env \<Rightarrow> handler option \<Rightarrow> string \<Rightarrow> json list \<Rightarrow> (string \<Rightarrow> bool) \<Rightarrow>
    IPGeoHTTPServer \<Rightarrow> Response \<Rightarrow> World \<Rightarrow> result" where
  \<comment> \<open>the lambda of that name, then the rest of the \<open>try\<close> block for its query list\<close>
  "process_batch env h type items validator srv res w =
     (case h of
        None \<Rightarrow> try_response (lookup_post_failed env res srv w)
          (send_error_response (env_dump env) 500 ''Internal Server Error''
             (type @ '' lookup handler not configured'') res) srv w
      | Some h \<Rightarrow>
          let batch_size = int (length items) in
          if batch_size > max_batch_size srv
          then try_response (lookup_post_failed env res srv w)
                 (send_json_response (env_dump env) (JObj (obj_of [
                    (''error'', JStr ''Batch size exceeds maximum limit''),
                    (''max_batch_size'', JInt (max_batch_size srv)), (''requested_size'', JInt batch_size)])) 400 res) srv w
          else (case run_batch env h (batch_items validator items) srv w of
                  Throw e \<Rightarrow> Throw e
                | Undefined \<Rightarrow> Undefined
                | Return (results, srv, w, Some e) \<Rightarrow> lookup_post_failed env res srv w e
                | Return (results, srv, w, None) \<Rightarrow>
                    (case env_dump env (JArr results) of
                       Inl e \<Rightarrow> lookup_post_failed env res srv w e
                     | Inr s \<Rightarrow> Return (Inr (set_content s ''application/json'' res), srv, w))))"

definition json_array :: "json \<Rightarrow> string \<Rightarrow> json list option" where
  \<comment> \<open>\<open>body.contains(key) && body[key].is_array()\<close>\<close>
  "json_array body key = (case json_at body key of Some (JArr items) \<Rightarrow> Some items | _ \<Rightarrow> None)"

definition handle_lookup_post :: "Env \<Rightarrow> IPGeoHTTPServer \<Rightarrow> Request \<Rightarrow> Response \<Rightarrow> World \<Rightarrow> result" where
  "handle_lookup_post env srv req res w =
     obind (prepare_request env srv req res w) (\<lambda>(prepared, srv, w).
       case prepared of
         Inl e \<Rightarrow> Return (Inl e, srv, w)
       | Inr (None, res) \<Rightarrow> Return (Inr res, srv, w)
       | Inr (Some client_ip, res) \<Rightarrow>
           (case env_parse env (req_body req) of
              Inl e \<Rightarrow> lookup_post_failed env res srv w e
            | Inr body \<Rightarrow>
                (case (json_array body ''ips'', json_array body ''macs'') of
                   (None, None) \<Rightarrow> try_response (lookup_post_failed env res srv w)
                     (send_error_response (env_dump env) 400 ''Bad Request''
                        (''Missing or invalid '' @ quoted ''ips'' @ '' or '' @ quoted ''macs'' @ '' array in request body'') res) srv w
                 | (Some ips, Some macs) \<Rightarrow> try_response (lookup_post_failed env res srv w)
                     (send_error_response (env_dump env) 400 ''Bad Request''
                        (''Cannot specify both '' @ quoted ''ips'' @ '' and '' @ quoted ''macs'' @ '' in the same request'') res) srv w
                 | (Some ips, None) \<Rightarrow> process_batch env (lookup_handler srv) ''IP'' ips
                     (isValidIpFormat (env_inet_pton env) (env_getaddrinfo env)) srv res w
                 | (None, Some macs) \<Rightarrow> process_batch env (mac_lookup_handler srv) ''MAC'' macs
                     isValidMacFormat srv res w)))"

section \<open>Routing\<close>

definition setup_cors :: "Response \<Rightarrow> Response" where
  \<comment> \<open>the pre-routing handler\<close>
  "setup_cors res =
     set_header ''Access-Control-Allow-Headers'' ''Content-Type, Authorization''
       (set_header ''Access-Control-Allow-Methods'' ''GET, POST, OPTIONS''
         (set_header ''Access-Control-Allow-Origin'' ''*'' res))"

datatype route = Root | Health | Lookup_get | Lookup_post | Password_get | Password_post | Preflight

definition setup_routes :: "((string \<times> string) \<times> route) list" where
  \<comment> \<open>the handler of a method and a path; \<open>setup_cors\<close> adds one for \<open>OPTIONS\<close> and every path\<close>
  "setup_routes = [((''GET'', ''/''), Root), ((''GET'', ''/health''), Health), ((''GET'', ''/lookup''), Lookup_get),
     ((''POST'', ''/lookup''), Lookup_post), ((''GET'', ''/password/generate''), Password_get),
     ((''POST'', ''/password/generate''), Password_post)]"

definition on_metrics :: "IPGeoHTTPServer \<Rightarrow> Metrics handled \<Rightarrow> result" where
  \<comment> \<open>the password handler works on the server's metrics\<close>
  "on_metrics srv r = obind r (\<lambda>(x, m, w). Return (x, srv\<lparr>metrics := m\<rparr>, w))"

definition serve :: "Env \<Rightarrow> route \<Rightarrow> IPGeoHTTPServer \<Rightarrow> Request \<Rightarrow> World \<Rightarrow> result" where
  \<comment> \<open>one routed request: CORS headers first, then the endpoint\<close>
  "serve env r srv req w =
     (let res = setup_cors Response_new in
      case r of
        Root \<Rightarrow> conclude (handle_root env res) srv srv w
      | Health \<Rightarrow> (case handle_health env srv res w of
          Undefined \<Rightarrow> Undefined
        | Throw e \<Rightarrow> Return (Inl e, srv, ticked 2 w)
        | Return (res, w) \<Rightarrow> Return (Inr res, srv, w))
      | Lookup_get \<Rightarrow> handle_lookup_get env srv req res w
      | Lookup_post \<Rightarrow> handle_lookup_post env srv req res w
      | Password_get \<Rightarrow> on_metrics srv (handle_get env req res (metrics srv) w)
      | Password_post \<Rightarrow> on_metrics srv (handle_post env (password_handler srv) req res (metrics srv) w)
      | Preflight \<Rightarrow> Return (Inr res, srv, w))"

definition cleanup_pass :: "Env \<Rightarrow> IPGeoHTTPServer \<Rightarrow> World \<Rightarrow> (IPGeoHTTPServer \<times> World) outcome" where
  \<comment> \<open>what the cleanup thread does when its wait ends without a stop request\<close>
  "cleanup_pass env srv w =
     (case rate_limiter srv of
        None \<Rightarrow> Undefined
      | Some rl \<Rightarrow> obind (cleanup (\<lambda>i. env_steady env (tick w + i)) rl) (\<lambda>rl'.
          Return (srv\<lparr>rate_limiter := Some rl'\<rparr>, ticked (length (ip_records rl)) w)))"

definition log_startup_banner :: "IPGeoHTTPServer \<Rightarrow> string list" where
  \<comment> \<open>the lines \<open>start\<close> writes to the log\<close>
  "log_startup_banner srv =
     (let rule = ''========================================'';
          address = srv_host srv @ '':'' @ int_to_string (uint (srv_port srv)) in
      [''Starting HTTP server on '' @ address, rule, ''  IP Geolocation & AS Lookup Service'', rule,
       ''Server: http://'' @ address, ''Thread Pool: '' @ int_to_string (thread_pool_size srv) @ '' threads'', [],
       ''API Endpoints:'',
       ''  GET  /                       - Service info'',
       ''  GET  /health                 - Health check'',
       ''  GET  /lookup?ip=<address>    - IP lookup'',
       ''  GET  /lookup?mac=<address>   - MAC lookup'',
       ''  POST /lookup                 - Batch lookup'',
       ''  GET  /password/generate      - Generate password'',
       ''  POST /password/generate      - Batch generate passwords'', [],
       ''Press Ctrl+C to stop the server'', rule])"

section \<open>Lemmas on the gate\<close>

definition authorized :: "Env \<Rightarrow> IPGeoHTTPServer \<Rightarrow> Request \<Rightarrow> bool" where
  "authorized env srv req \<longleftrightarrow>
     (case (enable_api_auth srv, api_auth srv) of
        (True, Some auth) \<Rightarrow> \<exists>key. get_header_value req ''Authorization'' = ''Bearer '' @ key \<and> is_valid (env_sha256 env) auth key
      | _ \<Rightarrow> True)"

lemma starts_with_append: "starts_with s p \<longleftrightarrow> (\<exists>t. s = p @ t)"
  unfolding starts_with_def by (metis append_eq_conv_conj append_take_drop_id)

lemma authenticate_spec:
  assumes "dump_ok (env_dump env)"
  shows "\<exists>res'. authenticate_request env srv req res = Return (authorized env srv req, res') \<and>
    (if authorized env srv req then res' = res else status res' = 401)"
proof (cases "enable_api_auth srv \<and> api_auth srv \<noteq> None")
  case False
  then show ?thesis by (auto simp: authenticate_request_def authorized_def split: bool.splits option.splits)
next
  case True
  then obtain auth where auth: "enable_api_auth srv" "api_auth srv = Some auth" by auto
  let ?hdr = "get_header_value req ''Authorization''"
  have err: "\<exists>s. send_error_response (env_dump env) 401 ''Unauthorized'' m res =
      Return (set_content s ''application/json'' (res\<lparr>status := 401\<rparr>))" if "ascii m" for m
    using send_error_ok [OF assms _ that, of "''Unauthorized''" 401 res] by (auto simp: ascii_def)
  have msgs: "ascii ''Missing API key in Authorization header''" "ascii ''Invalid API key''"
    "ascii ''Invalid Authorization header format. Expected: Bearer <api_key>''"
    by (simp_all add: ascii_def)
  show ?thesis
  proof (cases "starts_with ?hdr ''Bearer ''")
    case False
    then have "\<not> authorized env srv req" using auth by (auto simp: authorized_def starts_with_append)
    with False auth err [OF msgs(1)] err [OF msgs(3)] show ?thesis
      by (auto simp: authenticate_request_def Let_def set_header_def set_content_def)
  next
    case True
    then obtain key where key: "?hdr = ''Bearer '' @ key" by (auto simp: starts_with_append)
    then have "authorized env srv req \<longleftrightarrow> is_valid (env_sha256 env) auth key" using auth by (simp add: authorized_def)
    with True key auth err [OF msgs(2)] show ?thesis
      by (auto simp: authenticate_request_def Let_def set_content_def)
  qed
qed

lemma prepare_unauthorized:
  assumes "dump_ok (env_dump env)" "\<not> authorized env srv req"
  shows "\<exists>res'. prepare_request env srv req res w = Return (Inr (None, res'), srv, w) \<and> status res' = 401"
  using authenticate_spec [OF assms(1), of srv req res] assms(2) by (auto simp: prepare_request_def)

lemma authenticate_authorized:
  "dump_ok (env_dump env) \<Longrightarrow> authorized env srv req \<Longrightarrow> authenticate_request env srv req res = Return (True, res)"
  using authenticate_spec [of env srv req res] by auto

lemma prepare_limited:
  assumes "dump_ok (env_dump env)" "authorized env srv req" "get_real_client_ip req \<noteq> []"
    and "enable_rate_limiter srv" "rate_limiter srv = Some rl"
    and "is_allowed (env_steady env (tick w)) (env_steady env (tick w + 1)) (get_real_client_ip req) rl = Return (False, rl1)"
  shows "\<exists>res' rl'. prepare_request env srv req res w =
      Return (Inr (None, res'), srv\<lparr>rate_limiter := Some rl'\<rparr>, ticked 3 w) \<and>
    status res' = 429 \<and> (''Retry-After'', ''60'') \<in> set (headers res')"
proof -
  obtain remaining rl' where rem: "get_remaining (env_steady env (tick w + 2)) (get_real_client_ip req) rl1 = (remaining, rl')"
    by fastforce
  have "json_ascii (JObj (obj_of [(''error'', JStr ''Rate limit exceeded''), (''remaining'', JInt remaining)]))"
    by (rule ascii_obj_of) (simp add: ascii_def)
  from send_json_ok [OF assms(1) this, of 429 res] obtain s where
    "send_json_response (env_dump env) (JObj (obj_of [(''error'', JStr ''Rate limit exceeded''), (''remaining'', JInt remaining)])) 429 res
      = Return (set_content s ''application/json'' (res\<lparr>status := 429\<rparr>))" by blast
  then have "prepare_request env srv req res w = Return (Inr (None, set_header ''Retry-After'' ''60''
      (set_content s ''application/json'' (res\<lparr>status := 429\<rparr>))), srv\<lparr>rate_limiter := Some rl'\<rparr>, ticked 3 w)"
    using assms rem by (simp add: prepare_request_def Let_def authenticate_authorized)
  then show ?thesis by (intro exI conjI) (assumption, simp_all add: set_header_def set_content_def)
qed

lemma prepare_allowed:
  assumes "dump_ok (env_dump env)" "authorized env srv req" "get_real_client_ip req \<noteq> []"
    and "enable_rate_limiter srv \<longrightarrow> (\<exists>rl rl'. rate_limiter srv = Some rl \<and>
      is_allowed (env_steady env (tick w)) (env_steady env (tick w + 1)) (get_real_client_ip req) rl = Return (True, rl'))"
  shows "\<exists>rl n. prepare_request env srv req res w =
      Return (Inr (Some (get_real_client_ip req), res), srv\<lparr>rate_limiter := rl\<rparr>, ticked n w)"
proof (cases "enable_rate_limiter srv")
  case False
  with assms have "prepare_request env srv req res w =
      Return (Inr (Some (get_real_client_ip req), res), srv\<lparr>rate_limiter := rate_limiter srv\<rparr>, ticked 0 w)"
    by (simp add: prepare_request_def authenticate_authorized ticked_def)
  then show ?thesis by blast
next
  case True
  with assms(4) obtain rl rl' where "rate_limiter srv = Some rl"
    "is_allowed (env_steady env (tick w)) (env_steady env (tick w + 1)) (get_real_client_ip req) rl = Return (True, rl')" by auto
  with True assms(1-3) have "prepare_request env srv req res w =
      Return (Inr (Some (get_real_client_ip req), res), srv\<lparr>rate_limiter := Some rl'\<rparr>, ticked 2 w)"
    by (simp add: prepare_request_def authenticate_authorized)
  then show ?thesis by blast
qed

section \<open>The contract of a lookup handler\<close>

definition counted :: "nat \<Rightarrow> IPGeoHTTPServer \<Rightarrow> IPGeoHTTPServer \<Rightarrow> bool" where
  \<comment> \<open>\<open>n\<close> more requests, everything else of the server as before\<close>
  "counted n srv srv' \<longleftrightarrow> (\<exists>m. srv' = srv\<lparr>metrics := m\<rparr> \<and>
     total_requests m = total_requests (metrics srv) + of_nat n \<and> total_errors m = total_errors (metrics srv) \<and>
     (metrics_bounded (metrics srv) \<longrightarrow> metrics_bounded m))"

lemma counted_0: "counted 0 srv srv"
  unfolding counted_def by (intro exI [of _ "metrics srv"]) simp

lemma counted_request: "count_request env latency srv w = (srv', w') \<Longrightarrow> counted 1 srv srv'"
  by (auto simp: counted_def count_request_def metrics_bounded_record)

lemma counted_trans: "counted n srv srv1 \<Longrightarrow> counted k srv1 srv2 \<Longrightarrow> counted (n + k) srv srv2"
  by (auto simp: counted_def)

definition lookup_query :: "Request \<Rightarrow> string \<Rightarrow> bool \<times> string" where
  \<comment> \<open>what a GET request asks for: whether it is a MAC address, and the address\<close>
  "lookup_query req client_ip =
     (let mac = get_param_value req ''mac''; ip = get_param_value req ''ip''
      in if mac \<noteq> [] then (True, mac) else (False, if ip = [] then client_ip else ip))"

definition query_valid :: "Env \<Rightarrow> bool \<Rightarrow> string \<Rightarrow> bool" where
  "query_valid env is_mac q \<longleftrightarrow>
     (if is_mac then isValidMacFormat q else isValidIpFormat (env_inet_pton env) (env_getaddrinfo env) q)"

locale query_handler =
  fixes handler :: handler
    and invar :: "World \<Rightarrow> bool"
    and answer :: "string \<Rightarrow> json"
  assumes handler_law: "invar w \<Longrightarrow>
      \<exists>hit w'. handler q w = Return (\<lparr>lr_data = answer q, cache_hit = hit\<rparr>, w') \<and> invar w'"
    and tick_law: "invar w \<Longrightarrow> invar (ticked n w)"
begin

lemma timed:
  assumes "invar w"
  shows "\<exists>r lat w'. timed_lookup env handler q w = Return (r, lat, w') \<and> lr_data r = answer q \<and> invar w'"
proof -
  obtain hit w' where "handler q (ticked 1 w) = Return (\<lparr>lr_data = answer q, cache_hit = hit\<rparr>, w')" "invar w'"
    using handler_law [OF tick_law [OF assms, of 1]] by blast
  then show ?thesis using tick_law by (simp add: timed_lookup_def)
qed

lemma sequential:
  "invar w \<Longrightarrow> \<exists>srv' w'. batch_sequential env handler qs results srv w =
     Return (results @ map answer qs, srv', w', None) \<and> counted (length qs) srv srv' \<and> invar w'"
proof (induction qs arbitrary: results srv w)
  case Nil
  then show ?case by (auto simp: counted_0)
next
  case (Cons q qs)
  obtain r lat w1 where t: "timed_lookup env handler q w = Return (r, lat, w1)" "lr_data r = answer q" "invar w1"
    using timed [OF Cons.prems] by blast
  obtain srv2 w2 where c: "count_request env lat srv w1 = (srv2, w2)" by fastforce
  then have "invar w2" using tick_law [OF t(3)] by (auto simp: count_request_def)
  from Cons.IH [OF this, of "results @ [answer q]" srv2] obtain srv' w' where
    "batch_sequential env handler qs (results @ [answer q]) srv2 w2 = Return (results @ [answer q] @ map answer qs, srv', w', None)"
    "counted (length qs) srv2 srv'" "invar w'" by auto
  with t c counted_trans [OF counted_request [OF c]] show ?case by fastforce
qed

lemma async_runs:
  "invar w \<Longrightarrow> \<exists>futures' w'. async_run env handler qs sched futures w = Return (futures', w') \<and> invar w' \<and>
     (\<forall>i\<in>set sched. \<exists>r lat. futures' i = Some (Inr (r, lat)) \<and> lr_data r = answer (qs ! i)) \<and>
     (\<forall>i. i \<notin> set sched \<longrightarrow> futures' i = futures i)"
proof (induction sched arbitrary: futures w)
  case Nil
  then show ?case by simp
next
  case (Cons i sched)
  obtain r lat w1 where t: "timed_lookup env handler (qs ! i) w = Return (r, lat, w1)" "lr_data r = answer (qs ! i)" "invar w1"
    using timed [OF Cons.prems] by blast
  from Cons.IH [OF t(3), of "futures(i \<mapsto> Inr (r, lat))"] obtain futures' w' where
    f: "async_run env handler qs sched (futures(i \<mapsto> Inr (r, lat))) w1 = Return (futures', w')" "invar w'"
      "\<forall>i\<in>set sched. \<exists>r lat. futures' i = Some (Inr (r, lat)) \<and> lr_data r = answer (qs ! i)"
      "\<forall>k. k \<notin> set sched \<longrightarrow> futures' k = (futures(i \<mapsto> Inr (r, lat))) k" by blast
  have "\<exists>r lat. futures' i = Some (Inr (r, lat)) \<and> lr_data r = answer (qs ! i)"
    using f(3,4) t(2) by (cases "i \<in> set sched") auto
  with f t(1) show ?case by (intro exI [of _ futures'] exI [of _ w']) auto
qed

lemma collects:
  "\<forall>i\<in>set ids. \<exists>r lat. futures i = Some (Inr (r, lat)) \<and> lr_data r = answer (qs ! i) \<Longrightarrow> invar w \<Longrightarrow>
   \<exists>srv' w'. async_collect env futures ids results srv w =
     Return (results @ map (\<lambda>i. answer (qs ! i)) ids, srv', w', None) \<and> counted (length ids) srv srv' \<and> invar w'"
proof (induction ids arbitrary: results srv w)
  case Nil
  then show ?case by (auto simp: counted_0)
next
  case (Cons i ids)
  then obtain r lat where f: "futures i = Some (Inr (r, lat))" "lr_data r = answer (qs ! i)" by auto
  obtain srv2 w2 where c: "count_request env lat srv w = (srv2, w2)" by fastforce
  then have "invar w2" using tick_law [OF Cons.prems(2)] by (auto simp: count_request_def)
  with Cons.IH [of w2 "results @ [answer (qs ! i)]" srv2] Cons.prems obtain srv' w' where
    "async_collect env futures ids (results @ [answer (qs ! i)]) srv2 w2 =
       Return (results @ [answer (qs ! i)] @ map (\<lambda>i. answer (qs ! i)) ids, srv', w', None)"
    "counted (length ids) srv2 srv'" "invar w'" by auto
  with f c counted_trans [OF counted_request [OF c]] show ?case by fastforce
qed

lemma run_batch_answers:
  assumes "invar w" and "set (env_sched env (length qs)) = {0..<length qs}"
  shows "\<exists>srv' w'. run_batch env handler qs srv w = Return (map answer qs, srv', w', None) \<and>
    counted (length qs) srv srv' \<and> invar w'"
proof (cases "length qs \<le> 10")
  case True
  with sequential [OF assms(1), of env qs "[]" srv] show ?thesis by (simp add: run_batch_def)
next
  case False
  obtain futures w1 where f: "async_run env handler qs (env_sched env (length qs)) (\<lambda>_. None) w = Return (futures, w1)"
    "invar w1" "\<forall>i\<in>set [0..<length qs]. \<exists>r lat. futures i = Some (Inr (r, lat)) \<and> lr_data r = answer (qs ! i)"
    using async_runs [OF assms(1), of env qs "env_sched env (length qs)" "\<lambda>_. None"] assms(2) by auto
  have "map (\<lambda>i. answer (qs ! i)) [0..<length qs] = map answer qs"
    by (rule nth_equalityI) simp_all
  with collects [OF f(3,2), of env "[]" srv] f(1) False show ?thesis by (simp add: run_batch_def)
qed

lemma get_lookup:
  assumes gate: "prepare_request env srv req res w = Return (Inr (Some client_ip, res), srv1, w1)"
    and one: "get_param_value req ''mac'' = [] \<or> get_param_value req ''ip'' = []"
    and query: "lookup_query req client_ip = (is_mac, q)" and valid: "query_valid env is_mac q"
    and h: "(if is_mac then mac_lookup_handler srv1 else lookup_handler srv1) = Some handler" and inv: "invar w1"
  shows "\<exists>srv' w'. counted 1 srv1 srv' \<and> invar w' \<and> handle_lookup_get env srv req res w =
    (case env_dump env (answer q) of
       Inr s \<Rightarrow> Return (Inr (set_content s ''application/json'' res), srv', w')
     | Inl e \<Rightarrow> lookup_get_failed env res srv' w' e)"
proof -
  obtain r lat w2 where t: "timed_lookup env handler q w1 = Return (r, lat, w2)" "lr_data r = answer q" "invar w2"
    using timed [OF inv] by blast
  obtain srv3 w3 where c: "count_request env lat srv1 w2 = (srv3, w3)" by fastforce
  then have "invar w3" using tick_law [OF t(3)] by (auto simp: count_request_def)
  moreover have "handle_lookup_get env srv req res w =
      (case env_dump env (answer q) of Inr s \<Rightarrow> Return (Inr (set_content s ''application/json'' res), srv3, w3)
       | Inl e \<Rightarrow> lookup_get_failed env res srv3 w3 e)"
    using one query valid h t c gate
    by (auto simp: handle_lookup_get_def lookup_query_def query_valid_def Let_def split: if_splits sum.splits)
  ultimately show ?thesis using counted_request [OF c] by blast
qed

lemma batch_lookup:
  assumes "int (length items) \<le> max_batch_size srv" and "invar w"
    and "\<And>n. set (env_sched env n) = {0..<n}"
  shows "\<exists>srv' w'. counted (length (batch_items validator items)) srv srv' \<and> invar w' \<and>
    process_batch env (Some handler) type items validator srv res w =
    (case env_dump env (JArr (map answer (batch_items validator items))) of
       Inr s \<Rightarrow> Return (Inr (set_content s ''application/json'' res), srv', w')
     | Inl e \<Rightarrow> lookup_post_failed env res srv' w' e)"
proof -
  obtain srv' w' where "run_batch env handler (batch_items validator items) srv w =
      Return (map answer (batch_items validator items), srv', w', None)"
    "counted (length (batch_items validator items)) srv srv'" "invar w'"
    using run_batch_answers [OF assms(2,3)] by blast
  with assms(1) show ?thesis by (intro exI [of _ srv'] exI [of _ w']) (simp add: process_batch_def)
qed

end

lemma batch_items_filter:
  "batch_items validator items =
     filter validator (List.map_filter (\<lambda>j. case j of JStr s \<Rightarrow> Some s | _ \<Rightarrow> None) items)"
  by (induction items) (auto simp: List.map_filter_simps split: json.splits)

section \<open>Properties\<close>

text \<open>C16: Without a valid API key nothing happens: when authentication is on and the request has no header
  \<open>Authorization: Bearer <key>\<close> with a stored key, both lookup endpoints answer 401 and leave the
  server (metrics and rate limiter included), the caches, the clock and the random engine
  untouched.\<close>

theorem unauthorized_no_effect:
  assumes "dump_ok (env_dump env)" and "\<not> authorized env srv req" and "r \<in> {Lookup_get, Lookup_post}"
  shows "\<exists>res'. serve env r srv req w = Return (Inr res', srv, w) \<and> status res' = 401"
  using prepare_unauthorized [OF assms(1,2), of "setup_cors Response_new" w] assms(3)
  by (auto simp: serve_def handle_lookup_get_def handle_lookup_post_def Let_def)

definition toy_server :: IPGeoHTTPServer where
  "toy_server = IPGeoHTTPServer_new toy_env (\<lambda>p. None)
     (ServerConfig_default\<lparr>cfg_enable_api_auth := True, cfg_default_api_key := ''k''\<rparr>) 0"

lemma toy_unauthorized: "\<not> authorized toy_env toy_server toy_request"
  by (simp add: authorized_def toy_server_def IPGeoHTTPServer_new_def toy_request_def)

theorem unauthorized_no_effect_witness:
  "\<exists>res'. serve toy_env Lookup_get toy_server toy_request toy_world = Return (Inr res', toy_server, toy_world) \<and> status res' = 401"
  using unauthorized_no_effect [OF toy_env_ok(1) toy_unauthorized, of Lookup_get toy_world] by simp

text \<open>C17: A client over its limit gets no lookup: when the limiter refuses the client address, both lookup
  endpoints answer 429 with \<open>Retry-After: 60\<close>, and of all state only the limiter's own bookkeeping
  and the clock have moved.\<close>

theorem limited_no_lookup:
  assumes "dump_ok (env_dump env)" "authorized env srv req" "get_real_client_ip req \<noteq> []"
    and "enable_rate_limiter srv" "rate_limiter srv = Some rl"
    and "is_allowed (env_steady env (tick w)) (env_steady env (tick w + 1)) (get_real_client_ip req) rl = Return (False, rl1)"
    and "r \<in> {Lookup_get, Lookup_post}"
  shows "\<exists>res' rl'. serve env r srv req w = Return (Inr res', srv\<lparr>rate_limiter := Some rl'\<rparr>, ticked 3 w) \<and>
    status res' = 429 \<and> (''Retry-After'', ''60'') \<in> set (headers res')"
  using prepare_limited [OF assms(1-6), of "setup_cors Response_new"] assms(7)
  by (auto simp: serve_def handle_lookup_get_def handle_lookup_post_def Let_def)

definition toy_limited :: IPGeoHTTPServer where
  "toy_limited = toy_server\<lparr>enable_api_auth := False, rate_limiter := Some (RateLimiter_new 0 (seconds 60) 10)\<rparr>"

theorem limited_no_lookup_witness:
  "\<exists>res' rl'. serve toy_env Lookup_post toy_limited toy_request toy_world =
     Return (Inr res', toy_limited\<lparr>rate_limiter := Some rl'\<rparr>, ticked 3 toy_world) \<and> status res' = 429"
proof -
  have "authorized toy_env toy_limited toy_request" by (simp add: authorized_def toy_limited_def)
  moreover have "get_real_client_ip toy_request \<noteq> []" by (simp add: get_real_client_ip_def toy_request_def)
  moreover have "enable_rate_limiter toy_limited"
    by (simp add: toy_limited_def toy_server_def IPGeoHTTPServer_new_def ServerConfig_default_def)
  moreover have "rate_limiter toy_limited = Some (RateLimiter_new 0 (seconds 60) 10)" by (simp add: toy_limited_def)
  moreover have "is_allowed (env_steady toy_env (tick toy_world)) (env_steady toy_env (tick toy_world + 1))
      (get_real_client_ip toy_request) (RateLimiter_new 0 (seconds 60) 10) = Return (False, RateLimiter_new 0 (seconds 60) 10)"
    by (simp add: is_allowed_def RateLimiter_new_def)
  ultimately show ?thesis using limited_no_lookup [OF toy_env_ok(1), of toy_limited toy_request _ toy_world _ Lookup_post] by blast
qed

text \<open>The password endpoint is behind neither gate: with authentication on and no key in the request,
  and whatever the limiter holds, \<open>GET /password/generate\<close> without parameters answers 200.\<close>

lemma password_endpoint_ungated:
  assumes "dump_ok (env_dump env)" and "rng_ok (env_rng env)" and "\<not> authorized env srv req"
    and "\<And>k. get_param_value req k = []"
  shows "\<exists>res' srv' w'. serve env Password_get srv req w = Return (Inr res', srv', w') \<and> status res' = 200"
proof -
  have q: "get_query_config req = Return PasswordConfig_default"
    using assms(4) by (simp add: get_query_config_def parseBoolParam_def PasswordConfig_default_def)
  have v: "validate_config PasswordConfig_default = None"
    by (simp add: validate_config_def PasswordConfig_default_def)
  obtain r g where gen: "generate (env_rng env) (env_fl env) (env_log2 env) PasswordConfig_default (gen w) = Return (r, g)"
    "good_password PasswordConfig_default r" using generate_good [OF assms(2) v] by blast
  from send_json_ok [OF assms(1) good_password_ascii [OF gen(2)], of 200 "setup_cors Response_new"] q gen(1)
  show ?thesis by (auto simp: serve_def on_metrics_def handle_get_def try_response_def set_content_def)
qed

end
