(* ===== verification/Logger.thy ===== *)
theory Logger
  imports Prelude Paths
begin

text \<open>
  \<open>logger.cpp\<close>: which sinks the default logger gets, and the message of the signal handler. spdlog and
  the file system are a record of functions that return the exception a call throws, if any.
\<close>

record LogConfig =
  enable_file_logging :: bool
  log_file_path :: string
  rotation_type :: string
  max_file_size :: u64
  max_backup_files :: int
  enable_stdout :: bool

definition LogConfig_default :: LogConfig where
  "LogConfig_default = \<lparr>enable_file_logging = False, log_file_path = ''logs/ip_server.log'',
     rotation_type = ''size'', max_file_size = 10 * 1024 * 1024, max_backup_files = 5, enable_stdout = True\<rparr>"

datatype sink = Stdout_color_sink | Rotating_file_sink string u64 nat | Basic_file_sink string

record Spdlog =
  path_exists :: "string \<Rightarrow> bool"
  create_dirs :: "string \<Rightarrow> exn option"
  open_rotating :: "string \<Rightarrow> u64 \<Rightarrow> nat \<Rightarrow> exn option"
  open_basic :: "string \<Rightarrow> exn option"
  level_from_str :: "string \<Rightarrow> nat"

fun attempt :: "exn option \<Rightarrow> 'a \<Rightarrow> 'a outcome" where
  "attempt None x = Return x"
| "attempt (Some e) x = Throw e"

definition init_logging :: "Spdlog \<Rightarrow> LogConfig \<Rightarrow> sink list outcome" where
  \<comment> \<open>the sinks of the logger installed as default\<close>
  "init_logging lib config =
     (let sinks = (if enable_stdout config then [Stdout_color_sink] else []) in
      if enable_file_logging config
      then (let log_dir = parent_path (log_file_path config) in
            obind (if log_dir \<noteq> [] \<and> \<not> path_exists lib log_dir then attempt (create_dirs lib log_dir) ()
                   else Return ()) (\<lambda>_.
            if rotation_type config = ''size''
            then (let n = nat (take_bit 64 (max_backup_files config)) in
                  attempt (open_rotating lib (log_file_path config) (max_file_size config) n)
                    (sinks @ [Rotating_file_sink (log_file_path config) (max_file_size config) n]))
            else attempt (open_basic lib (log_file_path config))
                   (sinks @ [Basic_file_sink (log_file_path config)])))
      else Return sinks)"

definition set_log_level :: "Spdlog \<Rightarrow> string \<Rightarrow> nat" where
  "set_log_level lib level = level_from_str lib level"

definition signal_safe_log :: "string \<Rightarrow> string list" where
  \<comment> \<open>the three \<open>write\<close> calls to standard error\<close>
  "signal_safe_log signal_name =
     [''[SIGNAL] Received '', signal_name, '', shutting down gracefully...'' @ [CHR 0x0A]]"

end
