(* ===== verification/Application.thy ===== *)
theory Application
  imports Http_Server Logger
begin

text \<open>
  \<open>main.cpp\<close>: the handlers that connect the server to the services, the construction of the whole
  application and the program's exit code. \<open>start\<close> stands for what \<open>http_server.start\<close> returns,
  which the theory on the server's life cycle treats.
\<close>

section \<open>Model\<close>

definition geo_handler :: "Env \<Rightarrow> handler" where
  "geo_handler env ip w =
     obind (IPGeoService_lookup (env_mmdb env) (env_dump env) (env_hash env) (env_system env (tick w))
              (env_system env (tick w + 1)) ip (geo_service w)) (\<lambda>(r, svc).
       Return (r, ticked 2 (w\<lparr>geo_service := svc\<rparr>)))"

definition mac_handler :: "Env \<Rightarrow> handler" where
  "mac_handler env mac w =
     obind (MACLookupService_lookup (env_sqlite env) (env_dump env) (env_hash env) (env_system env (tick w))
              (env_system env (tick w + 1)) mac (mac_service w)) (\<lambda>(r, svc).
       Return (r, ticked 2 (w\<lparr>mac_service := svc\<rparr>)))"

definition combined_cache_stats :: "World \<Rightarrow> CacheStats" where
  "combined_cache_stats w =
     CacheStats_add (IPGeoService_cache_stats (geo_service w)) (MACLookupService_cache_stats (mac_service w))"

definition build_application :: "Env \<Rightarrow> file_system \<Rightarrow> ServerConfig \<Rightarrow> nat \<Rightarrow> nat \<Rightarrow>
    (IPGeoHTTPServer \<times> World) outcome" where
  \<comment> \<open>\<open>run_application\<close> up to the call of \<open>start\<close>; \<open>n\<close> clock readings were made before, \<open>seed\<close> is the
     state of the random engine\<close>
  "build_application env files config n seed =
     obind (fst (IPGeoService_new (env_mmdb env) (cfg_city_db_path config) (cfg_asn_db_path config))) (\<lambda>geo.
     obind (fst (MACLookupService_new (env_sqlite env) (cfg_oui_db_path config))) (\<lambda>mac.
       let srv = IPGeoHTTPServer_new env files config (env_steady env n);
           srv = set_lookup_handler (geo_handler env) srv;
           srv = set_mac_lookup_handler (mac_handler env) srv;
           srv = set_cache_stats_handler combined_cache_stats srv
       in Return (srv, \<lparr>tick = n + 1, gen = seed, geo_service = geo, mac_service = mac\<rparr>)))"

definition run_application :: "Env \<Rightarrow> (IPGeoHTTPServer \<Rightarrow> World \<Rightarrow> bool) \<Rightarrow> file_system \<Rightarrow> ServerConfig \<Rightarrow>
    nat \<Rightarrow> nat \<Rightarrow> bool outcome" where
  "run_application env start files config n seed =
     obind (build_application env files config n seed) (\<lambda>(srv, w). Return (start srv w))"

definition LogConfig_of :: "ServerConfig \<Rightarrow> LogConfig" where
  "LogConfig_of config = \<lparr>enable_file_logging = cfg_enable_file_logging config,
     log_file_path = cfg_log_file_path config, rotation_type = cfg_log_rotation_type config,
     max_file_size = cfg_log_max_file_size config, max_backup_files = cfg_log_max_backup_files config,
     enable_stdout = cfg_log_enable_stdout config\<rparr>"

record Exit =
  exit_code :: int
  exit_files :: files
  exit_log :: "(sink list \<times> nat) option" \<comment> \<open>sinks and level, once logging is set up\<close>

definition main_program ::
  "json_parse \<Rightarrow> json_dump \<Rightarrow> ('d \<Rightarrow> string \<Rightarrow> bool) \<Rightarrow> (string \<Rightarrow> 'd \<Rightarrow> 'd option) \<Rightarrow> Host \<Rightarrow> Spdlog \<Rightarrow>
   (file_system \<Rightarrow> ServerConfig \<Rightarrow> bool outcome) \<Rightarrow> exn + ParseResult \<Rightarrow> 'd \<Rightarrow> files \<Rightarrow> Exit outcome" where
  \<comment> \<open>\<open>d\<close> are the directories, which decide what can be written, and \<open>run\<close> is \<open>run_application\<close> on the files
     it finds\<close>
  "main_program parse_stream dump2 writable create_directories h lib run cli d fs =
     (case parse_config parse_stream dump2 (writable d) h cli fs of
        Undefined \<Rightarrow> Undefined
      | Throw e \<Rightarrow> Throw e
      | Return (Inl e, fs, lines) \<Rightarrow> Return \<lparr>exit_code = 1, exit_files = fs, exit_log = None\<rparr>
      | Return (Inr None, fs, lines) \<Rightarrow> Return \<lparr>exit_code = 0, exit_files = fs, exit_log = None\<rparr>
      | Return (Inr (Some config), fs, lines) \<Rightarrow>
          (case init_logging lib (LogConfig_of config) of
             Undefined \<Rightarrow> Undefined
           | Throw e \<Rightarrow> Return \<lparr>exit_code = 1, exit_files = fs, exit_log = None\<rparr>
           | Return sinks \<Rightarrow>
               let level = set_log_level lib (cfg_log_level config);
                   d = ensure_directories create_directories h d;
                   fs = (if cfg_config_file config \<noteq> [] \<and> fs (cfg_config_file config) = None
                         then snd (save_to_file dump2 (writable d) config (cfg_config_file config) fs) else fs)
               in (case run fs config of
                     Undefined \<Rightarrow> Undefined
                   | Throw e \<Rightarrow> Return \<lparr>exit_code = 1, exit_files = fs, exit_log = Some (sinks, level)\<rparr>
                   | Return ok \<Rightarrow> Return \<lparr>exit_code = (if ok then 0 else 1), exit_files = fs,
                       exit_log = Some (sinks, level)\<rparr>)))"

section \<open>The handlers satisfy their contract\<close>

definition geo_world :: "Env \<Rightarrow> (string \<Rightarrow> json) \<Rightarrow> World \<Rightarrow> bool" where
  "geo_world env f w \<longleftrightarrow> geo_invar (env_mmdb env) (env_dump env) (env_hash env) (geo_service w) \<and>
     geo_reply (env_mmdb env) (env_dump env) (geo_service w) = f"

definition mac_world :: "Env \<Rightarrow> (string \<Rightarrow> json) \<Rightarrow> World \<Rightarrow> bool" where
  "mac_world env f w \<longleftrightarrow> mac_invar (env_sqlite env) (env_dump env) (env_hash env) (mac_service w) \<and>
     mac_reply (env_sqlite env) (env_dump env) (mac_service w) = f"

definition app_world :: "Env \<Rightarrow> (string \<Rightarrow> json) \<Rightarrow> (string \<Rightarrow> json) \<Rightarrow> nat \<Rightarrow> World \<Rightarrow> bool" where
  \<comment> \<open>both services work and would answer \<open>f\<close> and \<open>g\<close>; at least \<open>n\<close> clock readings were made\<close>
  "app_world env f g n w \<longleftrightarrow> geo_world env f w \<and> mac_world env g w \<and> n \<le> tick w"

lemma app_world_ticked: "app_world env f g n w \<Longrightarrow> app_world env f g n (ticked k w)"
  by (simp add: app_world_def geo_world_def mac_world_def ticked_def)

interpretation geo_queries: query_handler "geo_handler env" "app_world env f g n" f for env f g n
proof (unfold_locales, goal_cases)
  case (1 w q)
  then show ?case
    using geo.lookup_law [of "env_mmdb env" "env_dump env" "env_hash env" "geo_service w" "env_system env (tick w)"
        "env_system env (tick w + 1)" q]
    by (auto simp: app_world_def geo_world_def mac_world_def geo_handler_def ticked_def)
qed (rule app_world_ticked)

interpretation mac_queries: query_handler "mac_handler env" "app_world env f g n" g for env f g n
proof (unfold_locales, goal_cases)
  case (1 w q)
  then show ?case
    using mac.lookup_law [of "env_sqlite env" "env_dump env" "env_hash env" "mac_service w" "env_system env (tick w)"
        "env_system env (tick w + 1)" q]
    by (auto simp: app_world_def geo_world_def mac_world_def mac_handler_def ticked_def)
qed (rule app_world_ticked)

lemma build_application_parts:
  assumes "build_application env files config n seed = Return (srv, w)"
  shows "lookup_handler srv = Some (geo_handler env)" "mac_lookup_handler srv = Some (mac_handler env)"
    "max_batch_size srv = cfg_max_batch_size config" "enable_api_auth srv = cfg_enable_api_auth config"
    "geo_invar (env_mmdb env) (env_dump env) (env_hash env) (geo_service w)"
    "enable_rate_limiter srv = cfg_enable_rate_limiter config"
    "api_auth srv = api_auth (IPGeoHTTPServer_new env files config (env_steady env n))"
proof -
  obtain geo evs1 where geo: "IPGeoService_new (env_mmdb env) (cfg_city_db_path config) (cfg_asn_db_path config) = (Return geo, evs1)"
    "geo_service w = geo"
    using assms by (auto simp: build_application_def outcome_simps Let_def fst_def split: prod.splits)
  show "geo_invar (env_mmdb env) (env_dump env) (env_hash env) (geo_service w)"
    using geo_new_invar [OF geo(1)] geo(2) by simp
  show "lookup_handler srv = Some (geo_handler env)" "mac_lookup_handler srv = Some (mac_handler env)"
    "max_batch_size srv = cfg_max_batch_size config" "enable_api_auth srv = cfg_enable_api_auth config"
    "enable_rate_limiter srv = cfg_enable_rate_limiter config"
    "api_auth srv = api_auth (IPGeoHTTPServer_new env files config (env_steady env n))"
    using assms by (auto simp: build_application_def outcome_simps Let_def set_lookup_handler_def
        set_mac_lookup_handler_def set_cache_stats_handler_def IPGeoHTTPServer_new_def)
qed

end
