(* ===== verification/Serving.thy ===== *)
theory Serving
  imports Application
begin

text \<open>
  Runs of the built application: requests on any route and passes of the cleanup thread, in any order.
  The invariant says that the server is the one that was built up to its rate limiter and metrics, that
  the limiter is in a state of one of its own runs, and that the services would still answer what they
  answered at the start; every request completes and keeps it.
\<close>

section \<open>Environment and invariant\<close>

definition env_ok :: "Env \<Rightarrow> bool" where
  \<comment> \<open>documented behaviour of the outside world: IEEE rounding, a steady clock, a uniform distribution
     within its bounds, a batch that runs each of its threads once, and a statement for every successful
     \<open>sqlite3_prepare_v2\<close> of a non-empty query\<close>
  "env_ok env \<longleftrightarrow> ieee_rounding (env_fl env) \<and> mono (env_steady env) \<and> rng_ok (env_rng env) \<and>
     (\<forall>n. distinct (env_sched env n) \<and> set (env_sched env n) = {0..<n}) \<and>
     (\<forall>d st. sqlite3_prepare_v2 (env_sqlite env) d OUI_LOOKUP_SQL = (SQLITE_OK, st) \<longrightarrow> st \<noteq> None)"

definition limiter_state :: "Env \<Rightarrow> int \<Rightarrow> (string \<Rightarrow> time_point list) \<Rightarrow> string set \<Rightarrow> RateLimiter \<Rightarrow> nat \<Rightarrow> bool" where
  \<comment> \<open>a state of a run of the limiter in which it saw addresses of \<open>C\<close> and admitted those of \<open>G\<close>; its
     last clock reading is not after the next one\<close>
  "limiter_state env mr G C rl n \<longleftrightarrow> (\<exists>t S. t \<le> env_steady env n \<and> S \<subseteq> C \<and>
     limiter_run mr (seconds 60) DEFAULT_MAX_IP_RECORDS rl G S t)"

definition server_ok :: "Env \<Rightarrow> int \<Rightarrow> (string \<Rightarrow> time_point list) \<Rightarrow> string set \<Rightarrow> IPGeoHTTPServer \<Rightarrow> World \<Rightarrow> bool" where
  "server_ok env mr G C srv w \<longleftrightarrow> metrics_bounded (metrics srv) \<and>
     (enable_rate_limiter srv \<longrightarrow> (\<exists>rl. rate_limiter srv = Some rl \<and> limiter_state env mr G C rl (tick w)))"

lemma limiter_stateE:
  assumes "limiter_state env mr G C rl n"
  obtains t S where "t \<le> env_steady env n" "S \<subseteq> C" "limiter_run mr (seconds 60) DEFAULT_MAX_IP_RECORDS rl G S t"
  using assms unfolding limiter_state_def by blast

lemma steady_mono: "env_ok env \<Longrightarrow> n \<le> k \<Longrightarrow> env_steady env n \<le> env_steady env k"
  unfolding env_ok_def by (auto dest: monoD)

lemma limiter_state_mono:
  "env_ok env \<Longrightarrow> limiter_state env mr G C rl n \<Longrightarrow> n \<le> k \<Longrightarrow> C \<subseteq> D \<Longrightarrow> limiter_state env mr G D rl k"
  unfolding limiter_state_def using steady_mono by (meson order_trans)

lemma server_ok_mono:
  "env_ok env \<Longrightarrow> server_ok env mr G C srv w \<Longrightarrow> tick w \<le> tick w' \<Longrightarrow> C \<subseteq> D \<Longrightarrow> server_ok env mr G D srv w'"
  unfolding server_ok_def using limiter_state_mono by blast

lemma server_ok_metrics:
  "server_ok env mr G C srv w \<Longrightarrow> (metrics_bounded (metrics srv) \<Longrightarrow> metrics_bounded m) \<Longrightarrow>
     server_ok env mr G C (srv\<lparr>metrics := m\<rparr>) w"
  by (simp add: server_ok_def)

section \<open>The gate\<close>

fun client_of :: "exn + string option \<times> Response \<Rightarrow> string option" where
  "client_of (Inr (client, res)) = client"
| "client_of (Inl e) = None"

definition admission :: "Env \<Rightarrow> route \<Rightarrow> IPGeoHTTPServer \<Rightarrow> Request \<Rightarrow> World \<Rightarrow> string option" where
  \<comment> \<open>the client address the gate lets through to a lookup endpoint\<close>
  "admission env r srv req w =
     (if r \<in> {Lookup_get, Lookup_post} then
        (case prepare_request env srv req (setup_cors Response_new) w of
           Return (x, srv', w') \<Rightarrow> client_of x
         | _ \<Rightarrow> None)
      else None)"

definition admit :: "Env \<Rightarrow> string option \<Rightarrow> World \<Rightarrow> (string \<Rightarrow> time_point list) \<Rightarrow> (string \<Rightarrow> time_point list)" where
  "admit env client w G =
     (case client of None \<Rightarrow> G | Some ip \<Rightarrow> G(ip := G ip @ [env_steady env (tick w)]))"

lemma authenticate_defined: "authenticate_request env srv req res \<noteq> Undefined"
  by (auto simp: authenticate_request_def Let_def obind_Undefined_iff split: bool.splits option.splits)

lemma limiter_request:
  assumes "env_ok env" "limiter_state env mr G C rl n"
  shows "\<exists>b rl'. is_allowed (env_steady env n) (env_steady env (n + 1)) ip rl = Return (b, rl') \<and>
    limiter_state env mr (if b then G(ip := G ip @ [env_steady env n]) else G) (insert ip C) rl' (n + 1)"
proof -
  obtain t S where t: "t \<le> env_steady env n" "S \<subseteq> C" and run: "limiter_run mr (seconds 60) DEFAULT_MAX_IP_RECORDS rl G S t"
    using assms(2) by (rule limiter_stateE)
  have clk: "env_steady env n \<le> env_steady env (n + 1)" using steady_mono [OF assms(1)] by simp
  have "limiter_ok t rl" using limiter_run_inv [OF run] by blast
  from is_allowed_ok [OF this t(1) clk] obtain b rl' where
    r: "is_allowed (env_steady env n) (env_steady env (n + 1)) ip rl = Return (b, rl')" by blast
  from limiter_run.request [OF run t(1) clk r] t(2) have
    "limiter_state env mr (if b then G(ip := G ip @ [env_steady env n]) else G) (insert ip C) rl' (n + 1)"
    unfolding limiter_state_def by (meson insert_mono order_refl)
  with r show ?thesis by blast
qed

lemma limiter_remaining:
  assumes "limiter_state env mr G C rl n" "get_remaining (env_steady env n) ip rl = (r, rl')"
  shows "limiter_state env mr G C rl' n"
  using assms(1)
proof (rule limiter_stateE)
  fix t S assume "t \<le> env_steady env n" "S \<subseteq> C" "limiter_run mr (seconds 60) DEFAULT_MAX_IP_RECORDS rl G S t"
  with limiter_run.remaining [OF this(3,1) assms(2)] show ?thesis unfolding limiter_state_def by blast
qed

lemma limiter_cleanup:
  assumes "env_ok env" "limiter_state env mr G C rl n"
  shows "\<exists>rl'. cleanup (\<lambda>i. env_steady env (n + i)) rl = Return rl' \<and>
    limiter_state env mr G C rl' (n + length (ip_records rl))"
proof -
  obtain t S where t: "t \<le> env_steady env n" "S \<subseteq> C" and run: "limiter_run mr (seconds 60) DEFAULT_MAX_IP_RECORDS rl G S t"
    using assms(2) by (rule limiter_stateE)
  let ?k = "length (ip_records rl)"
  define clk where "clk = (\<lambda>i. env_steady env (n + min i ?k))"
  have eq: "cleanup (\<lambda>i. env_steady env (n + i)) rl = cleanup clk rl"
    by (rule cleanup_cong) (simp add: clk_def)
  have clk: "t \<le> clk i \<and> clk i \<le> env_steady env (n + ?k)" for i
    using t(1) steady_mono [OF assms(1), of n "n + min i ?k"] steady_mono [OF assms(1), of "n + min i ?k" "n + ?k"]
    by (simp add: clk_def)
  have "limiter_ok t rl" using limiter_run_inv [OF run] by blast
  from cleanup_spec [OF this, of clk, OF clk] obtain rl' where rl': "cleanup clk rl = Return rl'" by blast
  from limiter_run.clean [OF run clk rl'] t(2) have "limiter_state env mr G C rl' (n + ?k)"
    unfolding limiter_state_def by blast
  with rl' eq show ?thesis by auto
qed

definition gate_ok :: "Env \<Rightarrow> int \<Rightarrow> (string \<Rightarrow> time_point list) \<Rightarrow> string set \<Rightarrow> IPGeoHTTPServer \<Rightarrow> Request \<Rightarrow> World \<Rightarrow>
    ((exn + string option \<times> Response) \<times> IPGeoHTTPServer \<times> World) outcome \<Rightarrow> bool" where
  \<comment> \<open>the gate completed, moved only the limiter and the clock, and logged what it admitted\<close>
  "gate_ok env mr G C srv req w r \<longleftrightarrow> (\<exists>x rl n. r = Return (x, srv\<lparr>rate_limiter := rl\<rparr>, ticked n w) \<and>
     client_of x \<in> {None, Some (get_real_client_ip req)} \<and>
     server_ok env mr (admit env (client_of x) w G) (insert (get_real_client_ip req) C)
       (srv\<lparr>rate_limiter := rl\<rparr>) (ticked n w))"

lemma gate_okI:
  assumes "r = Return (x, srv\<lparr>rate_limiter := rl\<rparr>, ticked n w)" "client_of x \<in> {None, Some (get_real_client_ip req)}"
    and "server_ok env mr (admit env (client_of x) w G) (insert (get_real_client_ip req) C) (srv\<lparr>rate_limiter := rl\<rparr>) (ticked n w)"
  shows "gate_ok env mr G C srv req w r"
  using assms unfolding gate_ok_def by blast

lemma gate_same:
  assumes "env_ok env" "server_ok env mr G C srv w" "client_of x = None"
  shows "gate_ok env mr G C srv req w (Return (x, srv, w))"
  using assms(3) server_ok_mono [OF assms(1,2), of w "insert (get_real_client_ip req) C"]
  by (intro gate_okI [where x = x and rl = "rate_limiter srv" and n = 0]) (auto simp: admit_def)

lemma prepare_limiter:
  assumes ok: "env_ok env" "server_ok env mr G C srv w" and auth: "authenticate_request env srv req res = Return (True, res1)"
    and ip: "get_real_client_ip req \<noteq> []" and enabled: "enable_rate_limiter srv"
  shows "gate_ok env mr G C srv req w (prepare_request env srv req res w)"
proof -
  let ?ip = "get_real_client_ip req"
  obtain rl where rl: "rate_limiter srv = Some rl" "limiter_state env mr G C rl (tick w)"
    using ok(2) enabled by (auto simp: server_ok_def)
  from limiter_request [OF ok(1) rl(2), of ?ip] obtain b rl' where
    r: "is_allowed (env_steady env (tick w)) (env_steady env (tick w + 1)) ?ip rl = Return (b, rl')"
      "limiter_state env mr (if b then G(?ip := G ?ip @ [env_steady env (tick w)]) else G) (insert ?ip C) rl' (tick w + 1)"
    by blast
  note later = limiter_state_mono [OF ok(1) r(2), of "tick w + 2" "insert ?ip C"]
  show ?thesis
  proof (cases b)
    case True
    with auth ip enabled rl r later ok(2) show ?thesis
      by (intro gate_okI [where x = "Inr (Some ?ip, res1)" and rl = "Some rl'" and n = 2]) (simp_all add: prepare_request_def server_ok_def admit_def)
  next
    case False
    obtain n rl2 where rem: "get_remaining (env_steady env (tick w + 2)) ?ip rl' = (n, rl2)" by fastforce
    have st: "limiter_state env mr G (insert ?ip C) rl2 (tick w + 3)"
      using limiter_state_mono [OF ok(1), of mr G "insert ?ip C" rl2 "tick w + 2" "tick w + 3"]
        limiter_remaining [OF _ rem] later False by auto
    let ?err = "JObj (obj_of [(''error'', JStr ''Rate limit exceeded''), (''remaining'', JInt n)])"
    from auth ip enabled rl r(1) False rem have
      "\<exists>x. client_of x = None \<and> prepare_request env srv req res w = Return (x, srv\<lparr>rate_limiter := Some rl2\<rparr>, ticked 3 w)"
      by (cases "send_json_response (env_dump env) ?err 429 res1") (auto simp: prepare_request_def Let_def)
    then obtain x where "client_of x = None"
      "prepare_request env srv req res w = Return (x, srv\<lparr>rate_limiter := Some rl2\<rparr>, ticked 3 w)" by blast
    with st ok(2) show ?thesis
      by (intro gate_okI [where x = x and rl = "Some rl2" and n = 3]) (simp_all add: server_ok_def admit_def)
  qed
qed

lemma prepare_total:
  assumes ok: "env_ok env" "server_ok env mr G C srv w"
  shows "gate_ok env mr G C srv req w (prepare_request env srv req res w)"
proof (cases "authenticate_request env srv req res")
  case Undefined
  then show ?thesis using authenticate_defined by blast
next
  case (Throw e)
  with gate_same [OF ok, of "Inl e" req] show ?thesis by (simp add: prepare_request_def)
next
  case (Return a)
  obtain auth res1 where a: "a = (auth, res1)" by (cases a)
  let ?ip = "get_real_client_ip req"
  consider "\<not> auth" | "auth" "?ip = []" | "auth" "?ip \<noteq> []" "\<not> enable_rate_limiter srv"
    | "auth" "?ip \<noteq> []" "enable_rate_limiter srv" by blast
  then show ?thesis
  proof cases
    case 1
    with Return a gate_same [OF ok, of "Inr (None, res1)" req] show ?thesis by (simp add: prepare_request_def)
  next
    case 2
    with Return a gate_same [OF ok, of "Inr (None, res2)" req for res2] gate_same [OF ok, of "Inl e" req for e] show ?thesis
      by (cases "send_error_response (env_dump env) 400 ''Bad Request'' ''Unable to determine source IP address'' res1")
        (simp_all add: prepare_request_def)
  next
    case 3
    with Return a ok(2) show ?thesis
      by (intro gate_okI [where x = "Inr (Some ?ip, res1)" and rl = "rate_limiter srv" and n = 0]) (simp_all add: prepare_request_def server_ok_def)
  next
    case 4
    with prepare_limiter [OF ok] Return a show ?thesis by simp
  qed
qed

section \<open>Every request completes\<close>

definition same_server :: "IPGeoHTTPServer \<Rightarrow> IPGeoHTTPServer \<Rightarrow> bool" where
  \<comment> \<open>only the rate limiter and the metrics may differ\<close>
  "same_server srv0 srv \<longleftrightarrow> (\<exists>rl m. srv = srv0\<lparr>rate_limiter := rl, metrics := m\<rparr>)"

lemma same_server_refl: "same_server srv srv"
  unfolding same_server_def by (intro exI [of _ "rate_limiter srv"] exI [of _ "metrics srv"]) simp

lemma same_server_limiter: "same_server srv0 srv \<Longrightarrow> same_server srv0 (srv\<lparr>rate_limiter := rl\<rparr>)"
proof -
  assume "same_server srv0 srv"
  then obtain rl0 m where "srv = srv0\<lparr>rate_limiter := rl0, metrics := m\<rparr>" by (auto simp: same_server_def)
  then have "srv\<lparr>rate_limiter := rl\<rparr> = srv0\<lparr>rate_limiter := rl, metrics := m\<rparr>" by (cases srv0) simp
  then show ?thesis unfolding same_server_def by blast
qed

lemma same_server_metrics: "same_server srv0 srv \<Longrightarrow> same_server srv0 (srv\<lparr>metrics := m\<rparr>)"
proof -
  assume "same_server srv0 srv"
  then obtain rl m0 where "srv = srv0\<lparr>rate_limiter := rl, metrics := m0\<rparr>" by (auto simp: same_server_def)
  then have "srv\<lparr>metrics := m\<rparr> = srv0\<lparr>rate_limiter := rl, metrics := m\<rparr>" by simp
  then show ?thesis unfolding same_server_def by blast
qed

lemma same_server_fields:
  assumes "same_server srv0 srv"
  shows "lookup_handler srv = lookup_handler srv0" "mac_lookup_handler srv = mac_lookup_handler srv0"
    "max_batch_size srv = max_batch_size srv0" "enable_api_auth srv = enable_api_auth srv0"
    "api_auth srv = api_auth srv0" "enable_rate_limiter srv = enable_rate_limiter srv0"
  using assms by (auto simp: same_server_def)

definition app_ok :: "Env \<Rightarrow> int \<Rightarrow> IPGeoHTTPServer \<Rightarrow> (string \<Rightarrow> json) \<Rightarrow> (string \<Rightarrow> json) \<Rightarrow>
    (string \<Rightarrow> time_point list) \<Rightarrow> string set \<Rightarrow> IPGeoHTTPServer \<Rightarrow> World \<Rightarrow> bool" where
  "app_ok env mr srv0 f g G C srv w \<longleftrightarrow> same_server srv0 srv \<and>
     server_ok env mr G C srv w \<and> app_world env f g 0 w"

definition completes :: "(IPGeoHTTPServer \<Rightarrow> World \<Rightarrow> bool) \<Rightarrow> result \<Rightarrow> bool" where
  "completes P r \<longleftrightarrow> (\<exists>x srv w. r = Return (x, srv, w) \<and> P srv w)"

lemma completes_Return [simp]: "completes P (Return (x, srv, w)) \<longleftrightarrow> P srv w"
  by (auto simp: completes_def)

lemma completes_conclude: "r \<noteq> Undefined \<Longrightarrow> P before w \<Longrightarrow> P after w \<Longrightarrow> completes P (conclude r before after w)"
  by (cases r) (auto simp: conclude_def)

lemma completes_try:
  "r \<noteq> Undefined \<Longrightarrow> P srv w \<Longrightarrow> (\<And>e. completes P (failed e)) \<Longrightarrow> completes P (try_response failed r srv w)"
  by (cases r) (auto simp: try_response_def)

lemma app_ok_metrics:
  assumes "app_ok env mr srv0 f g G C srv w" "metrics_bounded (metrics srv) \<Longrightarrow> metrics_bounded m"
  shows "app_ok env mr srv0 f g G C (srv\<lparr>metrics := m\<rparr>) w"
  using assms server_ok_metrics same_server_metrics unfolding app_ok_def by fastforce

lemma app_ok_later:
  assumes "env_ok env" "app_ok env mr srv0 f g G C srv w" "app_world env f g (tick w) w'"
  shows "app_ok env mr srv0 f g G C srv w'"
  using assms server_ok_mono [OF assms(1), of mr G C srv w w'] by (auto simp: app_ok_def app_world_def)

lemma app_ok_counted:
  "app_ok env mr srv0 f g G C srv w \<Longrightarrow> counted n srv srv' \<Longrightarrow> app_ok env mr srv0 f g G C srv' w"
  unfolding counted_def using app_ok_metrics by blast

lemma get_failed_completes:
  "app_ok env mr srv0 f g G C srv w \<Longrightarrow> completes (app_ok env mr srv0 f g G C) (lookup_get_failed env res srv w e)"
  unfolding lookup_get_failed_def
  by (intro completes_conclude) (auto simp: obind_Undefined_iff intro: app_ok_metrics metrics_bounded_error)

lemma lookup_failed_completes:
  "app_ok env mr srv0 f g G C srv w \<Longrightarrow> completes (app_ok env mr srv0 f g G C) (lookup_post_failed env res srv w e)"
  by (cases e) (auto intro!: completes_conclude intro: app_ok_metrics metrics_bounded_error)

lemma app_ok_handlers:
  assumes "app_ok env mr srv0 f g G C srv w" "lookup_handler srv0 = Some (geo_handler env)" "mac_lookup_handler srv0 = Some (mac_handler env)"
  shows "lookup_handler srv = Some (geo_handler env)" "mac_lookup_handler srv = Some (mac_handler env)"
    "max_batch_size srv = max_batch_size srv0"
  using assms same_server_fields [of srv0 srv] by (auto simp: app_ok_def)

lemma answer_completes:
  \<comment> \<open>serialising an answer, or handling the exception of the serialiser\<close>
  assumes "app_ok env mr srv0 f g G C srv w" "\<And>e. completes (app_ok env mr srv0 f g G C) (failed e)"
  shows "completes (app_ok env mr srv0 f g G C)
    (case env_dump env j of Inr s \<Rightarrow> Return (Inr (set_content s t res), srv, w) | Inl e \<Rightarrow> failed e)"
  using assms by (auto split: sum.splits)

lemma authenticate_True: "authenticate_request env srv req res = Return (True, res') \<Longrightarrow> res' = res"
  by (auto simp: authenticate_request_def Let_def outcome_simps split: bool.splits option.splits if_splits)

lemma prepare_Some:
  "prepare_request env srv req res w = Return (Inr (Some client_ip, res'), srv', w') \<Longrightarrow> res' = res"
  by (auto simp: prepare_request_def Let_def outcome_simps dest: authenticate_True
      split: outcome.splits if_splits option.splits prod.splits)

lemma lookup_get_completes:
  assumes env: "env_ok env" and ok: "app_ok env mr srv0 f g G C srv w"
    and h: "lookup_handler srv0 = Some (geo_handler env)" "mac_lookup_handler srv0 = Some (mac_handler env)"
    and gate: "prepare_request env srv1 req res w1 = Return (Inr (Some client_ip, res), srv, w)"
  shows "completes (app_ok env mr srv0 f g G C) (handle_lookup_get env srv1 req res w1)"
proof -
  obtain is_mac q where q: "lookup_query req client_ip = (is_mac, q)" by fastforce
  consider "get_param_value req ''mac'' \<noteq> []" "get_param_value req ''ip'' \<noteq> []"
    | "get_param_value req ''mac'' = [] \<or> get_param_value req ''ip'' = []" "\<not> query_valid env is_mac q"
    | "get_param_value req ''mac'' = [] \<or> get_param_value req ''ip'' = []" "query_valid env is_mac q" by blast
  then show ?thesis
  proof cases
    case 1
    with gate ok show ?thesis by (auto simp: handle_lookup_get_def Let_def intro!: completes_conclude)
  next
    case 2
    with gate q ok show ?thesis
      by (auto simp: handle_lookup_get_def lookup_query_def query_valid_def Let_def intro!: completes_try get_failed_completes split: if_splits)
  next
    case 3
    have w: "app_world env f g (tick w) w" using ok by (simp add: app_ok_def app_world_def)
    have kept: "app_ok env mr srv0 f g G C srv' w'" if "counted 1 srv srv'" "app_world env f g (tick w) w'" for srv' w'
      by (rule app_ok_counted [OF app_ok_later [OF env ok that(2)] that(1)])
    show ?thesis
    proof (cases is_mac)
      case True
      from mac_queries.get_lookup [OF gate 3(1) q 3(2), where enva = env and f = f and g = g and n = "tick w"] app_ok_handlers [OF ok h] True w
      obtain srv' w' where "counted 1 srv srv'" "app_world env f g (tick w) w'"
        "handle_lookup_get env srv1 req res w1 = (case env_dump env (g q) of
           Inr s \<Rightarrow> Return (Inr (set_content s ''application/json'' res), srv', w')
         | Inl e \<Rightarrow> lookup_get_failed env res srv' w' e)" by auto
      with answer_completes [OF kept get_failed_completes [OF kept]] show ?thesis by simp
    next
      case False
      from geo_queries.get_lookup [OF gate 3(1) q 3(2), where enva = env and f = f and g = g and n = "tick w"] app_ok_handlers [OF ok h] False w
      obtain srv' w' where "counted 1 srv srv'" "app_world env f g (tick w) w'"
        "handle_lookup_get env srv1 req res w1 = (case env_dump env (f q) of
           Inr s \<Rightarrow> Return (Inr (set_content s ''application/json'' res), srv', w')
         | Inl e \<Rightarrow> lookup_get_failed env res srv' w' e)" by auto
      with answer_completes [OF kept get_failed_completes [OF kept]] show ?thesis by simp
    qed
  qed
qed

lemma batch_completes:
  assumes env: "env_ok env" and ok: "app_ok env mr srv0 f g G C srv w"
    and h: "h = Some (geo_handler env) \<or> h = Some (mac_handler env)"
  shows "completes (app_ok env mr srv0 f g G C) (process_batch env h type items validator srv res w)"
proof (cases "int (length items) \<le> max_batch_size srv")
  case False
  with h ok show ?thesis
    by (auto simp: process_batch_def Let_def intro!: completes_try lookup_failed_completes)
next
  case True
  have w: "app_world env f g (tick w) w" using ok by (simp add: app_ok_def app_world_def)
  have sched: "\<And>n. set (env_sched env n) = {0..<n}" using env by (simp add: env_ok_def)
  have kept: "app_ok env mr srv0 f g G C srv' w'" if "counted n srv srv'" "app_world env f g (tick w) w'" for n srv' w'
    by (rule app_ok_counted [OF app_ok_later [OF env ok that(2)] that(1)])
  have "\<exists>srv' w' n j. counted n srv srv' \<and> app_world env f g (tick w) w' \<and>
      process_batch env h type items validator srv res w =
        (case env_dump env j of
           Inr s \<Rightarrow> Return (Inr (set_content s ''application/json'' res), srv', w')
         | Inl e \<Rightarrow> lookup_post_failed env res srv' w' e)"
    using h geo_queries.batch_lookup [OF True w sched] mac_queries.batch_lookup [OF True w sched] by blast
  with answer_completes [OF kept lookup_failed_completes [OF kept]] show ?thesis by fastforce
qed

lemma lookup_post_completes:
  assumes env: "env_ok env" and ok: "app_ok env mr srv0 f g G C srv w"
    and h: "lookup_handler srv0 = Some (geo_handler env)" "mac_lookup_handler srv0 = Some (mac_handler env)"
    and gate: "prepare_request env srv1 req res w1 = Return (Inr (Some client_ip, res), srv, w)"
  shows "completes (app_ok env mr srv0 f g G C) (handle_lookup_post env srv1 req res w1)"
  using gate ok batch_completes [OF env ok] app_ok_handlers [OF ok h]
  by (auto simp: handle_lookup_post_def split: sum.splits option.splits
      intro!: completes_try lookup_failed_completes)

definition logged :: "Env \<Rightarrow> route \<Rightarrow> IPGeoHTTPServer \<Rightarrow> Request \<Rightarrow> World \<Rightarrow>
    (string \<Rightarrow> time_point list) \<Rightarrow> string \<Rightarrow> time_point list" where
  "logged env r srv req w G = admit env (admission env r srv req w) w G"

lemma app_ok_gate:
  assumes env: "env_ok env" and ok: "app_ok env mr srv0 f g G C srv w" and r: "r \<in> {Lookup_get, Lookup_post}"
  obtains x srv1 w1 where "prepare_request env srv req (setup_cors Response_new) w = Return (x, srv1, w1)"
    and "app_ok env mr srv0 f g (logged env r srv req w G) (insert (get_real_client_ip req) C) srv1 w1"
proof -
  from prepare_total [OF env, of mr G C srv w req "setup_cors Response_new"] ok obtain x rl n where
    x: "prepare_request env srv req (setup_cors Response_new) w = Return (x, srv\<lparr>rate_limiter := rl\<rparr>, ticked n w)"
    "server_ok env mr (admit env (client_of x) w G) (insert (get_real_client_ip req) C) (srv\<lparr>rate_limiter := rl\<rparr>) (ticked n w)"
    by (auto simp: app_ok_def gate_ok_def)
  moreover have "logged env r srv req w G = admit env (client_of x) w G"
    using r x(1) by (auto simp: logged_def admission_def)
  ultimately show thesis
    using ok app_world_ticked [of env f g 0 w n] same_server_limiter by (intro that) (auto simp: app_ok_def)
qed

lemma on_metrics_completes:
  assumes env: "env_ok env" and ok: "app_ok env mr srv0 f g G C srv w" and r: "handled_ok (metrics srv) w r"
  shows "completes (app_ok env mr srv0 f g G C) (on_metrics srv r)"
proof -
  obtain x m w' where r: "r = Return (x, m, w')" and w': "later w w'"
    and m: "metrics_bounded (metrics srv) \<Longrightarrow> metrics_bounded m" using r by (auto simp: handled_ok_def)
  have "app_world env f g (tick w) w'"
    using ok w' by (auto simp: app_ok_def app_world_def later_def geo_world_def mac_world_def)
  with app_ok_metrics [OF app_ok_later [OF env ok] m] r show ?thesis by (simp add: on_metrics_def)
qed

lemma app_ok_mono:
  assumes "env_ok env" "app_ok env mr srv0 f g G C srv w" "C \<subseteq> D"
  shows "app_ok env mr srv0 f g G D srv (ticked n w)"
  using assms server_ok_mono [OF assms(1), of mr G C srv w "ticked n w" D] app_world_ticked [of env f g 0 w n]
  by (auto simp: app_ok_def)

lemma serve_completes:
  assumes env: "env_ok env" and ok: "app_ok env mr srv0 f g G C srv w"
    and h: "lookup_handler srv0 = Some (geo_handler env)" "mac_lookup_handler srv0 = Some (mac_handler env)"
  shows "completes (app_ok env mr srv0 f g (logged env r srv req w G) (insert (get_real_client_ip req) C)) (serve env r srv req w)"
proof (cases "r \<in> {Lookup_get, Lookup_post}")
  case True
  from app_ok_gate [OF env ok this] obtain x srv1 w1 where
    gate: "prepare_request env srv req (setup_cors Response_new) w = Return (x, srv1, w1)"
    and ok1: "app_ok env mr srv0 f g (logged env r srv req w G) (insert (get_real_client_ip req) C) srv1 w1" .
  show ?thesis
  proof (cases x)
    case (Inr p)
    obtain client res1 where p: "p = (client, res1)" by (cases p)
    show ?thesis
    proof (cases client)
      case (Some client_ip)
      with prepare_Some gate Inr p have "prepare_request env srv req (setup_cors Response_new) w =
          Return (Inr (Some client_ip, setup_cors Response_new), srv1, w1)" by blast
      with lookup_get_completes [OF env ok1 h] lookup_post_completes [OF env ok1 h] True show ?thesis
        by (auto simp: serve_def Let_def)
    qed (use True gate Inr p ok1 in \<open>auto simp: serve_def Let_def handle_lookup_get_def handle_lookup_post_def\<close>)
  qed (use True gate ok1 in \<open>auto simp: serve_def Let_def handle_lookup_get_def handle_lookup_post_def\<close>)
next
  case False
  then have log: "logged env r srv req w G = G" by (auto simp: logged_def admission_def admit_def)
  have same: "app_ok env mr srv0 f g G (insert (get_real_client_ip req) C) srv (ticked n w)" for n
    by (rule app_ok_mono [OF env ok]) auto
  note same0 = same [of 0, simplified]
  have stats: "\<exists>s. get_stats (env_fl env) (env_steady env (tick w)) (metrics srv) = Return s"
    using get_stats_defined env ok by (auto simp: env_ok_def app_ok_def server_ok_def)
  have health: "handle_health env srv res w \<noteq> Undefined" "handle_health env srv res w = Return (res', w') \<Longrightarrow>
      app_ok env mr srv0 f g G (insert (get_real_client_ip req) C) srv w'" for res res' w'
    using stats same [of 2] by (auto simp: handle_health_def Let_def outcome_simps obind_Undefined_iff)
  have rng: "rng_ok (env_rng env)" using env by (simp add: env_ok_def)
  have root: "handle_root env res \<noteq> Undefined" for res by (simp add: handle_root_def obind_Undefined_iff)
  show ?thesis
    unfolding log using False same same0 health root on_metrics_completes [OF env same0 handle_get_total [OF rng]]
      on_metrics_completes [OF env same0 handle_post_total [OF rng]]
    by (cases r) (auto simp: serve_def Let_def intro: completes_conclude split: outcome.splits)
qed

lemma cleanup_completes:
  assumes env: "env_ok env" and ok: "app_ok env mr srv0 f g G C srv w" and enabled: "enable_rate_limiter srv"
  shows "\<exists>srv' w'. cleanup_pass env srv w = Return (srv', w') \<and> app_ok env mr srv0 f g G C srv' w'"
proof -
  from ok enabled obtain rl where rl: "rate_limiter srv = Some rl" "limiter_state env mr G C rl (tick w)"
    by (auto simp: app_ok_def server_ok_def)
  from limiter_cleanup [OF env rl(2)] obtain rl' where rl': "cleanup (\<lambda>i. env_steady env (tick w + i)) rl = Return rl'"
    "limiter_state env mr G C rl' (tick w + length (ip_records rl))" by blast
  have "app_ok env mr srv0 f g G C (srv\<lparr>rate_limiter := Some rl'\<rparr>) (ticked (length (ip_records rl)) w)"
    using ok rl'(2) same_server_limiter app_world_ticked by (auto simp: app_ok_def server_ok_def)
  with rl(1) rl'(1) show ?thesis by (auto simp: cleanup_pass_def)
qed

section \<open>Runs\<close>

text \<open>
  A run of the built application; \<open>G\<close> collects the clock readings at which the gate admitted a lookup
  request of an address, \<open>C\<close> the client addresses of the requests.
\<close>

inductive app_run :: "Env \<Rightarrow> IPGeoHTTPServer \<Rightarrow> World \<Rightarrow> IPGeoHTTPServer \<Rightarrow> World \<Rightarrow>
    (string \<Rightarrow> time_point list) \<Rightarrow> string set \<Rightarrow> bool"
  for env :: Env and srv0 :: IPGeoHTTPServer and w0 :: World where
  start: "app_run env srv0 w0 srv0 w0 (\<lambda>_. []) {}"
| request: "app_run env srv0 w0 srv w G C \<Longrightarrow> serve env r srv req w = Return (x, srv', w') \<Longrightarrow>
    app_run env srv0 w0 srv' w' (logged env r srv req w G) (insert (get_real_client_ip req) C)"
| clean: "app_run env srv0 w0 srv w G C \<Longrightarrow> enable_rate_limiter srv \<Longrightarrow> cleanup_pass env srv w = Return (srv', w') \<Longrightarrow>
    app_run env srv0 w0 srv' w' G C"

abbreviation geo_answers :: "Env \<Rightarrow> World \<Rightarrow> string \<Rightarrow> json" where
  "geo_answers env w \<equiv> geo_reply (env_mmdb env) (env_dump env) (geo_service w)"

abbreviation mac_answers :: "Env \<Rightarrow> World \<Rightarrow> string \<Rightarrow> json" where
  "mac_answers env w \<equiv> mac_reply (env_sqlite env) (env_dump env) (mac_service w)"

lemma built_mac_statement:
  assumes "env_ok env" "MACLookupService_new (env_sqlite env) path = (Return mac, evs)"
  shows "lookup_stmt (oui_db mac) \<noteq> None"
proof -
  obtain obj evs' where new: "OUIDatabase_new (env_sqlite env) path = (obj, evs')" by fastforce
  with assms(2) have "obj = Return (oui_db mac)" by (auto simp: MACLookupService_new_def outcome_simps)
  with new have "\<exists>d. sqlite3_prepare_v2 (env_sqlite env) d OUI_LOOKUP_SQL = (SQLITE_OK, lookup_stmt (oui_db mac))"
    by (auto simp: OUIDatabase_new_def Let_def split: prod.splits if_splits option.splits) (metis OUIDatabase.select_convs(2))
  with assms(1) show ?thesis unfolding env_ok_def by metis
qed

lemma build_app_ok:
  assumes env: "env_ok env" and build: "build_application env files config n seed = Return (srv0, w0)"
  shows "app_ok env (cfg_max_requests_per_minute config) srv0 (geo_answers env w0) (mac_answers env w0) (\<lambda>_. []) {} srv0 w0"
proof -
  obtain mac evs where mac: "MACLookupService_new (env_sqlite env) (cfg_oui_db_path config) = (Return mac, evs)" "mac_service w0 = mac"
    using build by (auto simp: build_application_def outcome_simps Let_def fst_def split: prod.splits)
  have "mac_invar (env_sqlite env) (env_dump env) (env_hash env) (mac_service w0)"
    using mac_new_invar [OF mac(1) built_mac_statement [OF env mac(1)]] mac(2) by simp
  with build_application_parts(5) [OF build] have w: "app_world env (geo_answers env w0) (mac_answers env w0) 0 w0"
    by (simp add: app_world_def geo_world_def mac_world_def)
  have lim: "limiter_state env mr (\<lambda>_. []) {} (RateLimiter_new mr (seconds 60) DEFAULT_MAX_IP_RECORDS) k" for mr k
    unfolding limiter_state_def using limiter_run.start by blast
  have "metrics srv0 = Metrics_new (env_steady env n) \<and> rate_limiter srv0 = (if enable_rate_limiter srv0
      then Some (RateLimiter_new (cfg_max_requests_per_minute config) (seconds 60) DEFAULT_MAX_IP_RECORDS) else None)"
    using build by (auto simp: build_application_def outcome_simps Let_def set_lookup_handler_def
        set_mac_lookup_handler_def set_cache_stats_handler_def IPGeoHTTPServer_new_def)
  with lim metrics_bounded_new w same_server_refl show ?thesis by (simp add: app_ok_def server_ok_def)
qed

lemma app_run_ok:
  assumes env: "env_ok env" and build: "build_application env files config n seed = Return (srv0, w0)"
    and run: "app_run env srv0 w0 srv w G C"
  shows "app_ok env (cfg_max_requests_per_minute config) srv0 (geo_answers env w0) (mac_answers env w0) G C srv w"
  using run
proof (induction rule: app_run.induct)
  case start
  show ?case by (rule build_app_ok [OF env build])
next
  case (request srv w G C r req x srv' w')
  note h = build_application_parts(1,2) [OF build]
  from request serve_completes [OF env request.IH h, of r req] show ?case by simp
next
  case (clean srv w G C srv' w')
  with cleanup_completes [OF env clean.IH] show ?case by auto
qed

section \<open>Lookups in a run\<close>

lemma admitted_gate:
  assumes "env_ok env" "app_ok env mr srv0 f g G C srv w" "admission env r srv req w = Some client_ip"
  shows "\<exists>rl n. prepare_request env srv req (setup_cors Response_new) w =
    Return (Inr (Some client_ip, setup_cors Response_new), srv\<lparr>rate_limiter := rl\<rparr>, ticked n w)"
proof -
  from prepare_total [OF assms(1), of mr G C srv w req "setup_cors Response_new"] assms(2) obtain x rl n where
    x: "prepare_request env srv req (setup_cors Response_new) w = Return (x, srv\<lparr>rate_limiter := rl\<rparr>, ticked n w)"
    by (auto simp: app_ok_def gate_ok_def)
  with assms(3) have "client_of x = Some client_ip" by (auto simp: admission_def split: if_splits)
  then obtain res where "x = Inr (Some client_ip, res)" by (cases x rule: client_of.cases) auto
  with x prepare_Some show ?thesis by blast
qed

lemma counted_limiter:
  assumes "counted k (srv\<lparr>rate_limiter := rl\<rparr>) srv'"
  shows "total_requests (metrics srv') = total_requests (metrics srv) + of_nat k"
    "total_errors (metrics srv') = total_errors (metrics srv)"
  using assms by (auto simp: counted_def)

lemma sent_ok: "sent_status (set_content s t (setup_cors Response_new)) = 200"
  by (simp add: sent_status_def set_content_def setup_cors_def set_header_def Response_new_def)

definition answered :: "IPGeoHTTPServer \<Rightarrow> nat \<Rightarrow> string \<Rightarrow> result \<Rightarrow> bool" where
  \<comment> \<open>status 200, content \<open>s\<close>, \<open>k\<close> requests and no error counted\<close>
  "answered srv k s r \<longleftrightarrow> (\<exists>res srv' w'. r = Return (Inr res, srv', w') \<and> sent_status res = 200 \<and> content res = s \<and>
     total_requests (metrics srv') = total_requests (metrics srv) + of_nat k \<and>
     total_errors (metrics srv') = total_errors (metrics srv))"

lemma answeredI:
  assumes "r = Return (Inr (set_content s t (setup_cors Response_new)), srv', w')" "counted k (srv\<lparr>rate_limiter := rl\<rparr>) srv'"
  shows "answered srv k s r"
  using assms counted_limiter [OF assms(2)] sent_ok by (auto simp: answered_def set_content_def)

lemma get_answered:
  assumes env: "env_ok env" and ok: "app_ok env mr srv0 f g G C srv w"
    and h: "lookup_handler srv0 = Some (geo_handler env)" "mac_lookup_handler srv0 = Some (mac_handler env)"
    and adm: "admission env Lookup_get srv req w = Some client_ip"
    and one: "get_param_value req ''mac'' = [] \<or> get_param_value req ''ip'' = []"
    and q: "lookup_query req client_ip = (is_mac, q)" and valid: "query_valid env is_mac q"
    and s: "env_dump env ((if is_mac then g else f) q) = Inr s"
  shows "answered srv 1 s (serve env Lookup_get srv req w)"
proof -
  from admitted_gate [OF env ok adm] obtain rl n where gate: "prepare_request env srv req (setup_cors Response_new) w =
    Return (Inr (Some client_ip, setup_cors Response_new), srv\<lparr>rate_limiter := rl\<rparr>, ticked n w)" by blast
  have w: "app_world env f g 0 (ticked n w)" using ok app_world_ticked by (auto simp: app_ok_def)
  note hs = app_ok_handlers [OF ok h]
  have "\<exists>srv' w'. counted 1 (srv\<lparr>rate_limiter := rl\<rparr>) srv' \<and> handle_lookup_get env srv req (setup_cors Response_new) w =
      Return (Inr (set_content s ''application/json'' (setup_cors Response_new)), srv', w')"
  proof (cases is_mac)
    case True
    with mac_queries.get_lookup [OF gate one q valid, where enva = env and f = f and g = g and n = 0] hs w s
    show ?thesis by fastforce
  next
    case False
    with geo_queries.get_lookup [OF gate one q valid, where enva = env and f = f and g = g and n = 0] hs w s
    show ?thesis by fastforce
  qed
  then show ?thesis using answeredI by (auto simp: serve_def Let_def)
qed

definition json_strings :: "json list \<Rightarrow> string list" where
  "json_strings items = List.map_filter (\<lambda>j. case j of JStr s \<Rightarrow> Some s | _ \<Rightarrow> None) items"

lemma query_valid_cases:
  "query_valid env True = isValidMacFormat"
  "query_valid env False = isValidIpFormat (env_inet_pton env) (env_getaddrinfo env)"
  by (simp_all add: fun_eq_iff query_valid_def)

lemma post_answered:
  assumes env: "env_ok env" and ok: "app_ok env mr srv0 f g G C srv w"
    and h: "lookup_handler srv0 = Some (geo_handler env)" "mac_lookup_handler srv0 = Some (mac_handler env)"
    and adm: "admission env Lookup_post srv req w = Some client_ip"
    and body: "env_parse env (req_body req) = Inr body"
    and items: "json_array body (if is_mac then ''macs'' else ''ips'') = Some items"
      "json_array body (if is_mac then ''ips'' else ''macs'') = None"
    and size: "int (length items) \<le> max_batch_size srv0"
    and qs: "qs = filter (query_valid env is_mac) (json_strings items)"
    and s: "env_dump env (JArr (map (if is_mac then g else f) qs)) = Inr s"
  shows "answered srv (length qs) s (serve env Lookup_post srv req w)"
proof -
  from admitted_gate [OF env ok adm] obtain rl n where gate: "prepare_request env srv req (setup_cors Response_new) w =
    Return (Inr (Some client_ip, setup_cors Response_new), srv\<lparr>rate_limiter := rl\<rparr>, ticked n w)" by blast
  have w: "app_world env f g 0 (ticked n w)" using ok app_world_ticked by (auto simp: app_ok_def)
  note hs = app_ok_handlers [OF ok h]
  have sched: "\<And>n. set (env_sched env n) = {0..<n}" using env by (simp add: env_ok_def)
  have size': "int (length items) \<le> max_batch_size (srv\<lparr>rate_limiter := rl\<rparr>)" using size hs by simp
  have "\<exists>srv' w'. counted (length qs) (srv\<lparr>rate_limiter := rl\<rparr>) srv' \<and> handle_lookup_post env srv req (setup_cors Response_new) w =
      Return (Inr (set_content s ''application/json'' (setup_cors Response_new)), srv', w')"
  proof (cases is_mac)
    case True
    then have "batch_items isValidMacFormat items = qs"
      by (simp add: batch_items_filter qs json_strings_def query_valid_cases)
    with True mac_queries.batch_lookup [OF size' w sched, of isValidMacFormat "''MAC''" "setup_cors Response_new"] hs s gate body items
    show ?thesis by (fastforce simp: handle_lookup_post_def)
  next
    case False
    then have "batch_items (isValidIpFormat (env_inet_pton env) (env_getaddrinfo env)) items = qs"
      by (simp add: batch_items_filter qs json_strings_def query_valid_cases)
    with False geo_queries.batch_lookup [OF size' w sched, of "isValidIpFormat (env_inet_pton env) (env_getaddrinfo env)" "''IP''" "setup_cors Response_new"] hs s gate body items
    show ?thesis by (fastforce simp: handle_lookup_post_def)
  qed
  then show ?thesis using answeredI by (auto simp: serve_def Let_def)
qed

section \<open>Admissions and keys in a run\<close>

lemma app_run_finite: "app_run env srv0 w0 srv w G C \<Longrightarrow> finite C"
  by (induction rule: app_run.induct) auto

lemma recent_later: "t \<le> t' \<Longrightarrow> length (recent w t' us) \<le> length (recent w t us)"
proof -
  assume "t \<le> t'"
  then have "recent w t' us = filter (\<lambda>u. t' - u \<le> w) (recent w t us)"
    by (auto simp: recent_def intro: filter_cong)
  then show ?thesis by simp
qed

lemma state_admissions_bounded:
  assumes "limiter_state env mr G C rl n" "finite C" "card C \<le> DEFAULT_MAX_IP_RECORDS"
  shows "length (recent (seconds 60) (env_steady env n) (G ip)) \<le> nat mr"
  using assms(1)
proof (rule limiter_stateE)
  fix t S assume t: "t \<le> env_steady env n" "S \<subseteq> C" and run: "limiter_run mr (seconds 60) DEFAULT_MAX_IP_RECORDS rl G S t"
  have "card S \<le> DEFAULT_MAX_IP_RECORDS" using card_mono [OF assms(2) t(2)] assms(3) by linarith
  from run_admissions_bounded [OF run this, of ip] recent_later [OF t(1), of "seconds 60" "G ip"] show ?thesis by linarith
qed

definition configured_keys :: "file_system \<Rightarrow> ServerConfig \<Rightarrow> string set" where
  \<comment> \<open>the keys of the key file, if one is named and can be opened, and the default key\<close>
  "configured_keys files config =
     (case (cfg_api_keys_file config, files (cfg_api_keys_file config)) of
        (_ # _, Some keys) \<Rightarrow> set (file_keys keys)
      | _ \<Rightarrow> {}) \<union> ({cfg_default_api_key config} - {[]})"

lemma new_server_hashes:
  assumes "cfg_enable_api_auth config"
  shows "\<exists>auth. api_auth (IPGeoHTTPServer_new env files config now) = Some auth \<and>
    api_key_hashes auth = sha256Hash (env_sha256 env) ` configured_keys files config"
proof -
  have missing: "files p = None \<Longrightarrow> api_key_hashes (snd (load_keys_from_file sha files p APIAuth_new)) = {}" for sha p
    by (simp add: load_keys_from_file_def APIAuth_new_def)
  show ?thesis
    using assms load_keys_hashes [of files "cfg_api_keys_file config"] missing [of "cfg_api_keys_file config"]
    by (cases "cfg_api_keys_file config"; cases "files (cfg_api_keys_file config)")
      (auto simp: IPGeoHTTPServer_new_def Let_def configured_keys_def add_key_def APIAuth_new_def)
qed

lemma configured_keys_nonempty: "[] \<notin> configured_keys files config"
  by (auto simp: configured_keys_def file_keys_def split: list.splits option.splits)

lemma is_valid_configured:
  assumes "api_key_hashes auth = sha256Hash sha ` configured_keys files config"
    and "no_collision sha (insert key (configured_keys files config))"
  shows "is_valid sha auth key \<longleftrightarrow> key \<in> configured_keys files config"
  using no_collision_inj_on [OF assms(2)] assms(1) configured_keys_nonempty [of files config]
  by (auto simp: is_valid_def inj_on_def)

lemma configured_authorized:
  assumes "build_application env files config n seed = Return (srv0, w0)" "same_server srv0 srv" "cfg_enable_api_auth config"
    and "no_collision (env_sha256 env) (insert (drop 7 (get_header_value req ''Authorization'')) (configured_keys files config))"
  shows "authorized env srv req \<longleftrightarrow>
    (\<exists>key\<in>configured_keys files config. get_header_value req ''Authorization'' = ''Bearer '' @ key)"
proof -
  from new_server_hashes [OF assms(3), of env files "env_steady env n"] obtain auth where
    auth: "api_auth srv0 = Some auth" "api_key_hashes auth = sha256Hash (env_sha256 env) ` configured_keys files config"
    using build_application_parts(7) [OF assms(1)] by auto
  have "api_auth srv = Some auth" "enable_api_auth srv"
    using same_server_fields(4,5) [OF assms(2)] auth(1) assms(3) build_application_parts(4) [OF assms(1)] by auto
  with is_valid_configured [OF auth(2) assms(4)] show ?thesis by (auto simp: authorized_def)
qed

end
