(* ===== verification/Request_Threads.thy ===== *)
theory Request_Threads
  imports Serving
begin

text \<open>
  The endpoints of \<open>http_server.cpp\<close> as threads. The HTTP library runs every request in a thread of its
  pool, and a large batch starts a thread per query; all of them share the server object and the two
  services. A thread touches them only inside calls that hold a mutex or update one atomic counter,
  so its execution is the sequence of steps below: each makes one such call, with the thread's own
  computation around it. A step of a batch with threads of its own takes a number: the
  thread that runs, or, beyond them, the collector that waits for the futures in turn.
\<close>

section \<open>One lookup\<close>

datatype lookup_at =
    Entered string \<comment> \<open>before the timer starts\<close>
  | Timing string time_point \<comment> \<open>handler called, before \<open>cache_.get\<close>\<close>
  | Filling string time_point \<comment> \<open>after a miss, before the query and \<open>cache_.put\<close>\<close>
  | Found string LookupResult time_point \<comment> \<open>handler returned, before \<open>timer.elapsed()\<close>\<close>
  | Measured string "exn + LookupResult \<times> double"

primrec query_of :: "lookup_at \<Rightarrow> string" where
  "query_of (Entered q) = q"
| "query_of (Timing q t) = q"
| "query_of (Filling q t) = q"
| "query_of (Found q r t) = q"
| "query_of (Measured q x) = q"

primrec steps_left :: "lookup_at \<Rightarrow> nat" where
  "steps_left (Entered q) = 4"
| "steps_left (Timing q t) = 3"
| "steps_left (Filling q t) = 2"
| "steps_left (Found q r t) = 1"
| "steps_left (Measured q x) = 0"

definition world_probe :: "Env \<Rightarrow> bool \<Rightarrow> time_point \<Rightarrow> string \<Rightarrow> World \<Rightarrow> (json option \<times> World) outcome" where
  "world_probe env is_mac now q w =
     (if is_mac
      then obind (mac_probe (env_hash env) now q (mac_service w)) (\<lambda>(cached, svc). Return (cached, w\<lparr>mac_service := svc\<rparr>))
      else obind (geo_probe (env_hash env) now q (geo_service w)) (\<lambda>(cached, svc). Return (cached, w\<lparr>geo_service := svc\<rparr>)))"

definition world_fill :: "Env \<Rightarrow> bool \<Rightarrow> time_point \<Rightarrow> string \<Rightarrow> World \<Rightarrow> (json \<times> World) outcome" where
  "world_fill env is_mac now q w =
     (if is_mac
      then obind (mac_query (env_sqlite env) (env_dump env) (env_hash env) now q (mac_service w)) (\<lambda>(j, svc).
             Return (j, w\<lparr>mac_service := svc\<rparr>))
      else obind (geo_fill (env_mmdb env) (env_dump env) (env_hash env) now q (geo_service w)) (\<lambda>(j, svc).
             Return (j, w\<lparr>geo_service := svc\<rparr>)))"

fun lookup_step :: "Env \<Rightarrow> bool \<Rightarrow> lookup_at \<Rightarrow> World \<Rightarrow> (lookup_at \<times> World) outcome" where
  \<comment> \<open>a hit leaves out the reading of the clock in \<open>cache_.put\<close>\<close>
  "lookup_step env is_mac (Entered q) w = Return (Timing q (env_hrc env (tick w)), ticked 1 w)"
| "lookup_step env is_mac (Timing q t) w =
     (case world_probe env is_mac (env_system env (tick w)) q w of
        Undefined \<Rightarrow> Undefined
      | Throw e \<Rightarrow> Return (Measured q (Inl e), w)
      | Return (Some j, w) \<Rightarrow> Return (Found q \<lparr>lr_data = j, cache_hit = True\<rparr> t, ticked 2 w)
      | Return (None, w) \<Rightarrow> Return (Filling q t, ticked 1 w))"
| "lookup_step env is_mac (Filling q t) w =
     (case world_fill env is_mac (env_system env (tick w)) q w of
        Undefined \<Rightarrow> Undefined
      | Throw e \<Rightarrow> Return (Measured q (Inl e), w)
      | Return (j, w) \<Rightarrow> Return (Found q \<lparr>lr_data = j, cache_hit = False\<rparr> t, ticked 1 w))"
| "lookup_step env is_mac (Found q r t) w =
     Return (Measured q (Inr (r, ScopedTimer_elapsed (env_fl env) t (env_hrc env (tick w)))), ticked 1 w)"
| "lookup_step env is_mac (Measured q x) w = Return (Measured q x, w)"

section \<open>One request\<close>

datatype thread_at =
    Arrived
  | Admitted string \<comment> \<open>past the gate, with the client address\<close>
  | Refused string \<comment> \<open>over the limit, before \<open>get_remaining\<close>\<close>
  | Looking_up bool lookup_at
  | Recorded json \<comment> \<open>counted, before the response\<close>
  | Batch_sequential bool lookup_at "string list" "json list"
  | Batch_parallel bool "lookup_at list" "json list" \<comment> \<open>futures, and the results collected\<close>
  | Batch_unwinding bool "lookup_at list" exn \<comment> \<open>the destructors of the futures wait for their threads\<close>
  | Batch_done "json list"
  | Replied "exn + Response"

type_synonym stepped = "(thread_at \<times> IPGeoHTTPServer \<times> World) outcome"

abbreviation cors :: Response where
  "cors \<equiv> setup_cors Response_new"

definition finish :: "result \<Rightarrow> stepped" where
  "finish r = obind r (\<lambda>(x, srv, w). Return (Replied x, srv, w))"

definition gate :: "Env \<Rightarrow> IPGeoHTTPServer \<Rightarrow> Request \<Rightarrow> World \<Rightarrow> stepped" where
  \<comment> \<open>\<open>prepare_request\<close> up to \<open>is_allowed\<close>\<close>
  "gate env srv req w =
     (case authenticate_request env srv req cors of
        Undefined \<Rightarrow> Undefined
      | Throw e \<Rightarrow> Return (Replied (Inl e), srv, w)
      | Return (ok, res) \<Rightarrow>
          if \<not> ok then Return (Replied (Inr res), srv, w)
          else let client_ip = get_real_client_ip req in
            if client_ip = []
            then finish (conclude (send_error_response (env_dump env) 400 ''Bad Request''
                                     ''Unable to determine source IP address'' res) srv srv w)
            else if \<not> enable_rate_limiter srv then Return (Admitted client_ip, srv, w)
            else (case rate_limiter srv of
              None \<Rightarrow> Undefined
            | Some rl \<Rightarrow>
                obind (is_allowed (env_steady env (tick w)) (env_steady env (tick w + 1)) client_ip rl) (\<lambda>(allowed, rl).
                  Return (if allowed then Admitted client_ip else Refused client_ip, srv\<lparr>rate_limiter := Some rl\<rparr>, ticked 2 w))))"

definition refuse :: "Env \<Rightarrow> IPGeoHTTPServer \<Rightarrow> string \<Rightarrow> World \<Rightarrow> stepped" where
  \<comment> \<open>the rest of \<open>prepare_request\<close> for a client over its limit\<close>
  "refuse env srv client_ip w =
     (case rate_limiter srv of
        None \<Rightarrow> Undefined
      | Some rl \<Rightarrow>
          let (remaining, rl) = get_remaining (env_steady env (tick w)) client_ip rl;
              err = JObj (obj_of [(''error'', JStr ''Rate limit exceeded''), (''remaining'', JInt remaining)]);
              srv = srv\<lparr>rate_limiter := Some rl\<rparr>
          in finish (conclude (obind (send_json_response (env_dump env) err 429 cors) (\<lambda>res.
               Return (set_header ''Retry-After'' ''60'' res))) srv srv (ticked 1 w)))"

definition dispatch_get :: "Env \<Rightarrow> IPGeoHTTPServer \<Rightarrow> Request \<Rightarrow> string \<Rightarrow> World \<Rightarrow> stepped" where
  \<comment> \<open>\<open>handle_lookup_get\<close> from the gate to the start of the timer\<close>
  "dispatch_get env srv req client_ip w =
     (let mac_param = get_param_value req ''mac''; ip_param = get_param_value req ''ip'' in
      if mac_param \<noteq> [] \<and> ip_param \<noteq> []
      then finish (conclude (send_error_response (env_dump env) 400 ''Bad Request''
             (''Cannot specify both '' @ quoted ''ip'' @ '' and '' @ quoted ''mac'' @ '' parameters simultaneously'') cors)
             srv srv w)
      else let is_mac = (mac_param \<noteq> []);
               query = (if is_mac then mac_param else if ip_param = [] then client_ip else ip_param)
        in if \<not> query_valid env is_mac query
           then finish (try_response (lookup_get_failed env cors srv w)
                  (send_error_response (env_dump env) 400 ''Bad Request''
                     (if is_mac then ''Invalid MAC address format'' else ''Invalid IP address format'') cors) srv w)
           else if (if is_mac then mac_lookup_handler srv else lookup_handler srv) = None
           then finish (try_response (lookup_get_failed env cors srv w)
                  (send_error_response (env_dump env) 500 ''Internal Server Error''
                     ((if is_mac then ''MAC'' else ''IP'') @ '' lookup handler not configured'') cors) srv w)
           else Return (Looking_up is_mac (Entered query), srv, w))"

definition next_query :: "bool \<Rightarrow> string list \<Rightarrow> json list \<Rightarrow> thread_at" where
  "next_query is_mac qs results =
     (case qs of [] \<Rightarrow> Batch_done results | q # qs \<Rightarrow> Batch_sequential is_mac (Entered q) qs results)"

definition start_batch :: "Env \<Rightarrow> bool \<Rightarrow> json list \<Rightarrow> IPGeoHTTPServer \<Rightarrow> World \<Rightarrow> stepped" where
  \<comment> \<open>\<open>process_batch\<close>, and the start of the loop or of the threads\<close>
  "start_batch env is_mac items srv w =
     (if (if is_mac then mac_lookup_handler srv else lookup_handler srv) = None
      then finish (try_response (lookup_post_failed env cors srv w)
             (send_error_response (env_dump env) 500 ''Internal Server Error''
                ((if is_mac then ''MAC'' else ''IP'') @ '' lookup handler not configured'') cors) srv w)
      else if int (length items) > max_batch_size srv
      then finish (try_response (lookup_post_failed env cors srv w)
             (send_json_response (env_dump env) (JObj (obj_of [
                (''error'', JStr ''Batch size exceeds maximum limit''),
                (''max_batch_size'', JInt (max_batch_size srv)), (''requested_size'', JInt (int (length items)))])) 400 cors) srv w)
      else let qs = batch_items (query_valid env is_mac) items in
        Return (if length qs \<le> 10 then next_query is_mac qs [] else Batch_parallel is_mac (map Entered qs) [], srv, w))"

definition dispatch_post :: "Env \<Rightarrow> IPGeoHTTPServer \<Rightarrow> Request \<Rightarrow> World \<Rightarrow> stepped" where
  \<comment> \<open>\<open>handle_lookup_post\<close> from the gate to the first lookup\<close>
  "dispatch_post env srv req w =
     (case env_parse env (req_body req) of
        Inl e \<Rightarrow> finish (lookup_post_failed env cors srv w e)
      | Inr body \<Rightarrow>
          (case (json_array body ''ips'', json_array body ''macs'') of
             (None, None) \<Rightarrow> finish (try_response (lookup_post_failed env cors srv w)
               (send_error_response (env_dump env) 400 ''Bad Request''
                  (''Missing or invalid '' @ quoted ''ips'' @ '' or '' @ quoted ''macs'' @ '' array in request body'') cors) srv w)
           | (Some ips, Some macs) \<Rightarrow> finish (try_response (lookup_post_failed env cors srv w)
               (send_error_response (env_dump env) 400 ''Bad Request''
                  (''Cannot specify both '' @ quoted ''ips'' @ '' and '' @ quoted ''macs'' @ '' in the same request'') cors) srv w)
           | (Some ips, None) \<Rightarrow> start_batch env False ips srv w
           | (None, Some macs) \<Rightarrow> start_batch env True macs srv w))"

definition measured :: "lookup_at \<Rightarrow> bool" where
  "measured l \<longleftrightarrow> steps_left l = 0"

fun ready :: "nat \<Rightarrow> thread_at \<Rightarrow> bool" where
  \<comment> \<open>the thread has something to do; the collector waits for the next future, the unwinding for all\<close>
  "ready n (Replied x) \<longleftrightarrow> False"
| "ready n (Batch_parallel is_mac futures results) \<longleftrightarrow>
     (if n < length futures then \<not> measured (futures ! n)
      else length results < length futures \<longrightarrow> measured (futures ! length results))"
| "ready n (Batch_unwinding is_mac futures e) \<longleftrightarrow>
     (if n < length futures then \<not> measured (futures ! n) else list_all measured futures)"
| "ready n a \<longleftrightarrow> True"

definition lookup_of :: "Env \<Rightarrow> bool \<Rightarrow> (lookup_at \<Rightarrow> thread_at) \<Rightarrow> lookup_at \<Rightarrow> IPGeoHTTPServer \<Rightarrow> World \<Rightarrow> stepped" where
  "lookup_of env is_mac k l srv w = obind (lookup_step env is_mac l w) (\<lambda>(l, w). Return (k l, srv, w))"

fun advance :: "Env \<Rightarrow> route \<Rightarrow> Request \<Rightarrow> nat \<Rightarrow> thread_at \<Rightarrow> IPGeoHTTPServer \<Rightarrow> World \<Rightarrow> stepped" where
  \<comment> \<open>the other endpoints make one call each that changes the shared state\<close>
  "advance env r req n Arrived srv w =
     (if r = Lookup_get \<or> r = Lookup_post then gate env srv req w else finish (serve env r srv req w))"
| "advance env r req n (Refused client_ip) srv w = refuse env srv client_ip w"
| "advance env r req n (Admitted client_ip) srv w =
     (if r = Lookup_get then dispatch_get env srv req client_ip w else dispatch_post env srv req w)"
| "advance env r req n (Looking_up is_mac (Measured q (Inl e))) srv w = finish (lookup_get_failed env cors srv w e)"
| "advance env r req n (Looking_up is_mac (Measured q (Inr (result, latency)))) srv w =
     (let (srv, w) = count_request env latency srv w in Return (Recorded (lr_data result), srv, w))"
| "advance env r req n (Looking_up is_mac l) srv w = lookup_of env is_mac (Looking_up is_mac) l srv w"
| "advance env r req n (Recorded j) srv w =
     finish (case env_dump env j of
        Inl e \<Rightarrow> lookup_get_failed env cors srv w e
      | Inr s \<Rightarrow> Return (Inr (set_content s ''application/json'' cors), srv, w))"
| "advance env r req n (Batch_sequential is_mac (Measured q (Inl e)) qs results) srv w =
     finish (lookup_post_failed env cors srv w e)"
| "advance env r req n (Batch_sequential is_mac (Measured q (Inr (result, latency))) qs results) srv w =
     (let (srv, w) = count_request env latency srv w in Return (next_query is_mac qs (results @ [lr_data result]), srv, w))"
| "advance env r req n (Batch_sequential is_mac l qs results) srv w =
     lookup_of env is_mac (\<lambda>l. Batch_sequential is_mac l qs results) l srv w"
| "advance env r req n (Batch_parallel is_mac futures results) srv w =
     (if n < length futures
      then lookup_of env is_mac (\<lambda>l. Batch_parallel is_mac (futures[n := l]) results) (futures ! n) srv w
      else if length results < length futures
      then (case futures ! length results of
              Measured q (Inr (result, latency)) \<Rightarrow>
                (let (srv, w) = count_request env latency srv w
                 in Return (Batch_parallel is_mac futures (results @ [lr_data result]), srv, w))
            | Measured q (Inl e) \<Rightarrow> Return (Batch_unwinding is_mac futures e, srv, w)
            | l \<Rightarrow> Return (Batch_parallel is_mac futures results, srv, w))
      else Return (Batch_done results, srv, w))"
| "advance env r req n (Batch_unwinding is_mac futures e) srv w =
     (if n < length futures
      then lookup_of env is_mac (\<lambda>l. Batch_unwinding is_mac (futures[n := l]) e) (futures ! n) srv w
      else finish (lookup_post_failed env cors srv w e))"
| "advance env r req n (Batch_done results) srv w =
     finish (case env_dump env (JArr results) of
        Inl e \<Rightarrow> lookup_post_failed env cors srv w e
      | Inr s \<Rightarrow> Return (Inr (set_content s ''application/json'' cors), srv, w))"
| "advance env r req n (Replied x) srv w = Return (Replied x, srv, w)"

section \<open>A thread that runs alone\<close>

text \<open>
  The steps put together again are the endpoint functions: whatever \<open>serve\<close> computes, a thread computes
  that is not interrupted.
\<close>

definition handler_of :: "Env \<Rightarrow> bool \<Rightarrow> handler" where
  "handler_of env is_mac = (if is_mac then mac_handler env else geo_handler env)"

definition own_step :: "Env \<Rightarrow> route \<Rightarrow> Request \<Rightarrow> thread_at \<times> IPGeoHTTPServer \<times> World \<Rightarrow>
    thread_at \<times> IPGeoHTTPServer \<times> World \<Rightarrow> bool" where
  "own_step env r req = (\<lambda>(a, srv, w) y. \<exists>n. ready n a \<and> advance env r req n a srv w = Return y)"

lemma own_stepI: "ready n a \<Longrightarrow> advance env r req n a srv w = Return y \<Longrightarrow> own_step env r req (a, srv, w) y"
  by (auto simp: own_step_def)

definition lookup_path :: "Env \<Rightarrow> bool \<Rightarrow> lookup_at \<times> World \<Rightarrow> lookup_at \<times> World \<Rightarrow> bool" where
  "lookup_path env is_mac = (\<lambda>(l, w) y. \<not> measured l \<and> lookup_step env is_mac l w = Return y)\<^sup>*\<^sup>*"

lemma lookup_path_refl: "lookup_path env is_mac x x"
  by (simp add: lookup_path_def)

lemma lookup_path_step:
  "\<not> measured l \<Longrightarrow> lookup_step env is_mac l w = Return y \<Longrightarrow> lookup_path env is_mac y z \<Longrightarrow> lookup_path env is_mac (l, w) z"
  unfolding lookup_path_def by (rule converse_rtranclp_into_rtranclp) auto

lemma ticked_ticked [simp]: "ticked n (ticked k w) = ticked (n + k) w"
  by (simp add: ticked_def)

lemma world_fill_ticked:
  "world_fill env is_mac now q (ticked n w) = obind (world_fill env is_mac now q w) (\<lambda>(j, w). Return (j, ticked n w))"
  by (cases w) (simp add: world_fill_def ticked_def obind_assoc split_def)

lemma world_probe_tick: "world_probe env is_mac now q w = Return (c, w') \<Longrightarrow> tick w' = tick w"
  by (auto simp: world_probe_def outcome_simps split: if_splits)

lemma world_fill_tick: "world_fill env is_mac now q w = Return (j, w') \<Longrightarrow> tick w' = tick w"
  by (auto simp: world_fill_def outcome_simps split: if_splits)

lemma handler_of_staged:
  "handler_of env is_mac q w = obind (world_probe env is_mac (env_system env (tick w)) q w) (\<lambda>(c, w1).
     (case c of
        Some j \<Rightarrow> Return (\<lparr>lr_data = j, cache_hit = True\<rparr>, ticked 2 w1)
      | None \<Rightarrow> obind (world_fill env is_mac (env_system env (tick w + 1)) q w1) (\<lambda>(j, w2).
          Return (\<lparr>lr_data = j, cache_hit = False\<rparr>, ticked 2 w2))))"
proof (cases is_mac)
  case True
  then show ?thesis
    by (cases "mac_probe (env_hash env) (env_system env (tick w)) q (mac_service w)")
      (auto simp: handler_of_def mac_handler_def MACLookupService_lookup_staged staged_def world_probe_def world_fill_def
        ticked_def obind_assoc split_def split: option.splits)
next
  case False
  then show ?thesis
    by (cases "geo_probe (env_hash env) (env_system env (tick w)) q (geo_service w)")
      (auto simp: handler_of_def geo_handler_def IPGeoService_lookup_staged staged_def world_probe_def world_fill_def
        ticked_def obind_assoc split_def split: option.splits)
qed

lemma lookup_alone:
  assumes "timed_lookup env (handler_of env is_mac) q w = Return (r, lat, w')"
  shows "lookup_path env is_mac (Entered q, w) (Measured q (Inr (r, lat)), w')"
proof -
  let ?t = "env_hrc env (tick w)" and ?w = "ticked 1 w"
  from assms obtain w3 where h: "handler_of env is_mac q ?w = Return (r, w3)"
    and lat: "lat = ScopedTimer_elapsed (env_fl env) ?t (env_hrc env (tick w3))" "w' = ticked 1 w3"
    by (auto simp: timed_lookup_def outcome_simps)
  have last: "lookup_path env is_mac (Found q r ?t, w3) (Measured q (Inr (r, lat)), w')"
    using lat by (intro lookup_path_step [OF _ _ lookup_path_refl]) (simp_all add: measured_def)
  from h obtain c w1 where c: "world_probe env is_mac (env_system env (tick ?w)) q ?w = Return (c, w1)"
    unfolding handler_of_staged by (auto simp: outcome_simps)
  have "lookup_path env is_mac (Timing q ?t, ?w) (Measured q (Inr (r, lat)), w')"
  proof (cases c)
    case (Some j)
    with h c have "r = \<lparr>lr_data = j, cache_hit = True\<rparr>" "w3 = ticked 2 w1" by (auto simp: handler_of_staged)
    with last c Some show ?thesis by (intro lookup_path_step [OF _ _ last]) (simp_all add: measured_def)
  next
    case None
    with h c obtain j w2 where j: "world_fill env is_mac (env_system env (tick ?w + 1)) q w1 = Return (j, w2)"
      "r = \<lparr>lr_data = j, cache_hit = False\<rparr>" "w3 = ticked 2 w2" by (auto simp: handler_of_staged outcome_simps)
    have "lookup_step env is_mac (Filling q ?t) (ticked 1 w1) = Return (Found q r ?t, w3)"
      using j world_probe_tick [OF c] by (simp add: world_fill_ticked numeral_2_eq_2)
    from lookup_path_step [OF _ this last] c None show ?thesis
      by (intro lookup_path_step [of "Timing q ?t"]) (auto simp: measured_def)
  qed
  then show ?thesis by (intro lookup_path_step [of "Entered q"]) (auto simp: measured_def)
qed

lemma IPCache_get_no_throw: "IPCache_get hash now k c \<noteq> Throw e"
  by (auto simp: IPCache_get_def CacheShard_get_def Let_def outcome_simps split: option.splits if_splits)

lemma catch_no_throw: "(\<And>e. h e \<noteq> Throw e') \<Longrightarrow> catch_exn m h \<noteq> Throw e'"
  by (cases m) auto

lemma query_no_throw: "geo_query lib dump hash now ip svc \<noteq> Throw e" "mac_query sq dump hash now m msvc \<noteq> Throw e"
  unfolding geo_query_def mac_query_def Let_def by (rule catch_no_throw, simp)+

lemma handler_no_throw: "handler_of env is_mac q w \<noteq> Throw e"
  unfolding handler_of_staged world_probe_def world_fill_def geo_probe_def mac_probe_def geo_fill_def
  by (auto simp: outcome_simps IPCache_get_no_throw query_no_throw split: if_splits option.splits)

lemma timed_no_throw: "timed_lookup env (handler_of env is_mac) q w \<noteq> Throw e"
  by (simp add: timed_lookup_def outcome_simps handler_no_throw)

lemma lookup_path_lift:
  assumes "lookup_path env is_mac (l, w) (l', w')"
    and "\<And>l w. \<not> measured l \<Longrightarrow> ready n (k l) \<and> advance env r req n (k l) srv w = lookup_of env is_mac k l srv w"
  shows "(own_step env r req)\<^sup>*\<^sup>* (k l, srv, w) (k l', srv, w')"
  using assms(1) unfolding lookup_path_def
proof (induction rule: rtranclp_induct2)
  case (step l1 w1 l2 w2)
  then have "own_step env r req (k l1, srv, w1) (k l2, srv, w2)"
    using assms(2) [of l1 w1] by (intro own_stepI [of n]) (auto simp: lookup_of_def)
  with step.IH show ?case by (rule rtranclp.rtrancl_into_rtrancl)
qed simp

lemma Looking_up_lookup: "\<not> measured l \<Longrightarrow>
    ready n (Looking_up is_mac l) \<and> advance env r req n (Looking_up is_mac l) srv w = lookup_of env is_mac (Looking_up is_mac) l srv w"
  by (cases l) (auto simp: measured_def)

lemma Batch_sequential_lookup: "\<not> measured l \<Longrightarrow>
    ready n (Batch_sequential is_mac l qs results) \<and> advance env r req n (Batch_sequential is_mac l qs results) srv w =
      lookup_of env is_mac (\<lambda>l. Batch_sequential is_mac l qs results) l srv w"
  by (cases l) (auto simp: measured_def)

lemma Batch_parallel_lookup: "i < length futures \<Longrightarrow> \<not> measured l \<Longrightarrow>
    ready i (Batch_parallel is_mac (futures[i := l]) results) \<and> advance env r req i (Batch_parallel is_mac (futures[i := l]) results) srv w =
      lookup_of env is_mac (\<lambda>l. Batch_parallel is_mac (futures[i := l]) results) l srv w"
  by simp

lemma sequential_alone:
  assumes "batch_sequential env (handler_of env is_mac) qs results srv w = Return (rs, srv', w', x)"
  shows "x = None \<and> (own_step env r req)\<^sup>*\<^sup>* (next_query is_mac qs results, srv, w) (Batch_done rs, srv', w')"
  using assms
proof (induction qs arbitrary: results srv w)
  case Nil
  then show ?case by (simp add: next_query_def)
next
  case (Cons q qs)
  from Cons.prems timed_no_throw [of env is_mac q w] obtain result lat w1 where
    t: "timed_lookup env (handler_of env is_mac) q w = Return (result, lat, w1)"
    by (auto split: outcome.splits)
  obtain srv2 w2 where c: "count_request env lat srv w1 = (srv2, w2)" by fastforce
  have "(own_step env r req)\<^sup>*\<^sup>* (next_query is_mac (q # qs) results, srv, w)
      (Batch_sequential is_mac (Measured q (Inr (result, lat))) qs results, srv, w1)"
    using lookup_path_lift [where k = "\<lambda>l. Batch_sequential is_mac l qs results" and n = 0, OF lookup_alone [OF t] Batch_sequential_lookup, of r req srv]
    by (simp add: next_query_def)
  moreover have "own_step env r req (Batch_sequential is_mac (Measured q (Inr (result, lat))) qs results, srv, w1)
      (next_query is_mac qs (results @ [lr_data result]), srv2, w2)"
    using c by (intro own_stepI [of 0]) simp_all
  moreover from Cons.prems t c have "batch_sequential env (handler_of env is_mac) qs (results @ [lr_data result]) srv2 w2 =
      Return (rs, srv', w', x)" by simp
  note Cons.IH [OF this]
  ultimately show ?case by (meson rtranclp.rtrancl_into_rtrancl rtranclp_trans)
qed

lemma async_alone:
  assumes "async_run env (handler_of env is_mac) qs sched fs w = Return (fs', w')" and "distinct sched"
    and "length futures = length qs" and "\<And>i. i \<in> set sched \<Longrightarrow> i < length qs \<and> futures ! i = Entered (qs ! i)"
  shows "\<exists>futures'. (own_step env r req)\<^sup>*\<^sup>* (Batch_parallel is_mac futures results, srv, w) (Batch_parallel is_mac futures' results, srv, w') \<and>
    length futures' = length qs \<and> (\<forall>i. i \<notin> set sched \<longrightarrow> futures' ! i = futures ! i \<and> fs' i = fs i) \<and>
    (\<forall>i\<in>set sched. \<exists>y. futures' ! i = Measured (qs ! i) (Inr y) \<and> fs' i = Some (Inr y))"
  using assms
proof (induction sched arbitrary: fs w futures)
  case Nil
  then show ?case by auto
next
  case (Cons i sched)
  from Cons.prems(1) timed_no_throw [of env is_mac "qs ! i" w] obtain result lat w1 where
    t: "timed_lookup env (handler_of env is_mac) (qs ! i) w = Return (result, lat, w1)"
    by (auto split: outcome.splits)
  have i: "i < length futures" "futures[i := Entered (qs ! i)] = futures" "i \<notin> set sched"
    using Cons.prems(2-4) by (auto simp: list_update_same_conv)
  let ?futures = "futures[i := Measured (qs ! i) (Inr (result, lat))]"
  have first: "(own_step env r req)\<^sup>*\<^sup>* (Batch_parallel is_mac futures results, srv, w) (Batch_parallel is_mac ?futures results, srv, w1)"
    using lookup_path_lift [where k = "\<lambda>l. Batch_parallel is_mac (futures[i := l]) results", OF lookup_alone [OF t] Batch_parallel_lookup [OF i(1)], of r req srv] i(2) by simp
  from Cons.prems t have "async_run env (handler_of env is_mac) qs sched (fs(i \<mapsto> Inr (result, lat))) w1 = Return (fs', w')" by simp
  from Cons.IH [OF this, of ?futures] Cons.prems(2-4) obtain futures' where
    f: "(own_step env r req)\<^sup>*\<^sup>* (Batch_parallel is_mac ?futures results, srv, w1) (Batch_parallel is_mac futures' results, srv, w')"
      "length futures' = length qs" "\<forall>k. k \<notin> set sched \<longrightarrow> futures' ! k = ?futures ! k \<and> fs' k = (fs(i \<mapsto> Inr (result, lat))) k"
      "\<forall>k\<in>set sched. \<exists>y. futures' ! k = Measured (qs ! k) (Inr y) \<and> fs' k = Some (Inr y)"
    by (metis distinct.simps(2) length_list_update list.set_intros(2) nth_list_update_neq)
  have "\<exists>y. futures' ! i = Measured (qs ! i) (Inr y) \<and> fs' i = Some (Inr y)" using f(3) i(1,3) by simp
  with f i first show ?case by (intro exI [of _ futures'] conjI) (auto intro: rtranclp_trans)
qed

lemma collect_alone:
  assumes "async_collect env fs [length results..<length futures] results srv w = Return (rs, srv', w', x)"
    and "\<And>i. i < length futures \<Longrightarrow> \<exists>q y. futures ! i = Measured q (Inr y) \<and> fs i = Some (Inr y)"
  shows "x = None \<and> (own_step env r req)\<^sup>*\<^sup>* (Batch_parallel is_mac futures results, srv, w) (Batch_done rs, srv', w')"
  using assms(1)
proof (induction "length futures - length results" arbitrary: results srv w)
  case 0
  then have "own_step env r req (Batch_parallel is_mac futures results, srv, w) (Batch_done results, srv, w)"
    by (intro own_stepI [of "length futures"]) simp_all
  with 0 show ?case by simp
next
  case (Suc d)
  then have less: "length results < length futures" by simp
  with assms(2) obtain q result lat where
    y: "futures ! length results = Measured q (Inr (result, lat))" "fs (length results) = Some (Inr (result, lat))" by fastforce
  obtain srv2 w2 where c: "count_request env lat srv w = (srv2, w2)" by fastforce
  have "own_step env r req (Batch_parallel is_mac futures results, srv, w) (Batch_parallel is_mac futures (results @ [lr_data result]), srv2, w2)"
    using less y(1) c by (intro own_stepI [of "length futures"]) (simp_all add: measured_def)
  moreover have "async_collect env fs [length (results @ [lr_data result])..<length futures] (results @ [lr_data result]) srv2 w2 =
      Return (rs, srv', w', x)"
    using Suc.prems less y(2) c by (simp add: upt_conv_Cons)
  note Suc.hyps(1) [OF _ this]
  ultimately show ?case using Suc.hyps(2) by (fastforce intro: converse_rtranclp_into_rtranclp)
qed

definition after_gate :: "exn + string option \<times> Response \<Rightarrow> thread_at" where
  "after_gate x = (case x of Inl e \<Rightarrow> Replied (Inl e)
     | Inr (client, res) \<Rightarrow> (case client of None \<Rightarrow> Replied (Inr res) | Some ip \<Rightarrow> Admitted ip))"

lemma gate_refused_alone:
  assumes "authenticate_request env srv req cors = Return (True, cors)" "get_real_client_ip req \<noteq> []" "enable_rate_limiter srv"
    and "rate_limiter srv = Some rl"
    and "is_allowed (env_steady env (tick w)) (env_steady env (tick w + 1)) (get_real_client_ip req) rl = Return (False, rl1)"
    and "prepare_request env srv req cors w = Return (x, srv1, w1)"
  shows "gate env srv req w = Return (Refused (get_real_client_ip req), srv\<lparr>rate_limiter := Some rl1\<rparr>, ticked 2 w)"
    "refuse env (srv\<lparr>rate_limiter := Some rl1\<rparr>) (get_real_client_ip req) (ticked 2 w) = Return (after_gate x, srv1, w1)"
proof -
  show "gate env srv req w = Return (Refused (get_real_client_ip req), srv\<lparr>rate_limiter := Some rl1\<rparr>, ticked 2 w)"
    using assms by (simp add: gate_def)
  obtain k rl2 where rem: "get_remaining (env_steady env (tick w + 2)) (get_real_client_ip req) rl1 = (k, rl2)" by fastforce
  show "refuse env (srv\<lparr>rate_limiter := Some rl1\<rparr>) (get_real_client_ip req) (ticked 2 w) = Return (after_gate x, srv1, w1)"
    using assms rem
    by (cases "send_json_response (env_dump env) (JObj (obj_of [(''error'', JStr ''Rate limit exceeded''), (''remaining'', JInt k)])) 429 cors")
      (auto simp: prepare_request_def refuse_def finish_def conclude_def after_gate_def Let_def numeral_3_eq_3)
qed

lemma gate_admitted_alone:
  assumes "authenticate_request env srv req cors = Return (True, cors)" "get_real_client_ip req \<noteq> []"
    and "enable_rate_limiter srv \<Longrightarrow> rate_limiter srv = Some rl \<and>
      is_allowed (env_steady env (tick w)) (env_steady env (tick w + 1)) (get_real_client_ip req) rl = Return (True, rl1)"
    and "prepare_request env srv req cors w = Return (x, srv1, w1)"
  shows "gate env srv req w = Return (after_gate x, srv1, w1)"
  using assms by (cases "enable_rate_limiter srv") (auto simp: prepare_request_def gate_def after_gate_def Let_def)

lemma gate_unadmitted_alone:
  assumes "authenticate_request env srv req cors \<noteq> Return (True, cors) \<or> get_real_client_ip req = []"
    and "prepare_request env srv req cors w = Return (x, srv1, w1)"
  shows "gate env srv req w = Return (after_gate x, srv1, w1)"
proof (cases "authenticate_request env srv req cors")
  case (Return a)
  obtain ok res where a: "a = (ok, res)" by (cases a)
  show ?thesis
  proof (cases ok)
    case True
    with Return a have "res = cors" using authenticate_True by simp
    with True Return a assms show ?thesis
      by (cases "send_error_response (env_dump env) 400 ''Bad Request'' ''Unable to determine source IP address'' cors")
        (auto simp: prepare_request_def gate_def finish_def conclude_def after_gate_def Let_def)
  qed (use Return a assms in \<open>auto simp: prepare_request_def gate_def after_gate_def\<close>)
qed (use assms in \<open>auto simp: prepare_request_def gate_def after_gate_def\<close>)

lemma gate_alone:
  assumes prep: "prepare_request env srv req cors w = Return (x, srv1, w1)" and r: "r = Lookup_get \<or> r = Lookup_post"
  shows "(own_step env r req)\<^sup>*\<^sup>* (Arrived, srv, w) (after_gate x, srv1, w1)"
proof -
  let ?ip = "get_real_client_ip req"
  have first: "own_step env r req (Arrived, srv, w) y" if "gate env srv req w = Return y" for y
    using that r by (intro own_stepI [of 0]) auto
  show ?thesis
  proof (cases "authenticate_request env srv req cors = Return (True, cors) \<and> ?ip \<noteq> []")
    case False
    with gate_unadmitted_alone [OF _ prep] first show ?thesis by blast
  next
    case True
    show ?thesis
    proof (cases "enable_rate_limiter srv")
      case False
      with True gate_admitted_alone [OF _ _ _ prep] first show ?thesis by blast
    next
      case limited: True
      with True prep obtain rl allowed rl1 where rl: "rate_limiter srv = Some rl"
        "is_allowed (env_steady env (tick w)) (env_steady env (tick w + 1)) ?ip rl = Return (allowed, rl1)"
        by (auto simp: prepare_request_def Let_def outcome_simps split: option.splits)
      show ?thesis
      proof (cases allowed)
        case True
        with rl have "rate_limiter srv = Some rl \<and>
          is_allowed (env_steady env (tick w)) (env_steady env (tick w + 1)) ?ip rl = Return (True, rl1)" by simp
        from gate_admitted_alone [OF _ _ this prep]
          \<open>authenticate_request env srv req cors = Return (True, cors) \<and> ?ip \<noteq> []\<close> first show ?thesis by blast
      next
        case False
        with rl(2) have "is_allowed (env_steady env (tick w)) (env_steady env (tick w + 1)) ?ip rl = Return (False, rl1)" by simp
        note g = gate_refused_alone [OF conjunct1 [OF True] conjunct2 [OF True] limited rl(1) this prep]
        have "own_step env r req (Refused ?ip, srv\<lparr>rate_limiter := Some rl1\<rparr>, ticked 2 w) (after_gate x, srv1, w1)"
          using g(2) by (intro own_stepI [of 0]) simp_all
        with first [OF g(1)] show ?thesis by simp
      qed
    qed
  qed
qed

lemma finish_alone:
  "ready n a \<Longrightarrow> advance env r req n a srv w = finish res \<Longrightarrow> res = Return (x, srv', w') \<Longrightarrow>
     (own_step env r req)\<^sup>*\<^sup>* (a, srv, w) (Replied x, srv', w')"
  by (rule r_into_rtranclp, rule own_stepI [of n]) (simp_all add: finish_def)

lemma looking_up_alone:
  assumes "(case timed_lookup env (handler_of env is_mac) q w of
       Undefined \<Rightarrow> Undefined
     | Throw e \<Rightarrow> failed e
     | Return (result, latency, w) \<Rightarrow>
         let (srv, w) = count_request env latency srv w in
         (case env_dump env (lr_data result) of
           Inl e \<Rightarrow> lookup_get_failed env cors srv w e
         | Inr s \<Rightarrow> Return (Inr (set_content s ''application/json'' cors), srv, w))) = Return (x, srv', w')"
  shows "(own_step env r req)\<^sup>*\<^sup>* (Looking_up is_mac (Entered q), srv, w) (Replied x, srv', w')"
proof -
  from assms timed_no_throw [of env is_mac q w] obtain result lat w1 where
    t: "timed_lookup env (handler_of env is_mac) q w = Return (result, lat, w1)" by (auto split: outcome.splits)
  obtain srv2 w2 where c: "count_request env lat srv w1 = (srv2, w2)" by fastforce
  have "own_step env r req (Looking_up is_mac (Measured q (Inr (result, lat))), srv, w1) (Recorded (lr_data result), srv2, w2)"
    using c by (intro own_stepI [of 0]) simp_all
  moreover have "(own_step env r req)\<^sup>*\<^sup>* (Recorded (lr_data result), srv2, w2) (Replied x, srv', w')"
    using assms t c by (intro finish_alone [of 0]) auto
  ultimately show ?thesis
    using lookup_path_lift [where k = "Looking_up is_mac" and n = 0, OF lookup_alone [OF t] Looking_up_lookup, of r req srv]
    by (meson rtranclp.rtrancl_into_rtrancl rtranclp_trans)
qed

lemma get_alone:
  assumes "prepare_request env srv req cors w = Return (Inr (Some ip, cors), srv1, w1)"
    and "handle_lookup_get env srv req cors w = Return (x, srv', w')"
    and h: "lookup_handler srv1 = Some (geo_handler env)" "mac_lookup_handler srv1 = Some (mac_handler env)"
  shows "(own_step env Lookup_get req)\<^sup>*\<^sup>* (Admitted ip, srv1, w1) (Replied x, srv', w')"
proof -
  obtain is_mac q where q: "lookup_query req ip = (is_mac, q)" by fastforce
  show ?thesis
  proof (cases "(get_param_value req ''mac'' = [] \<or> get_param_value req ''ip'' = []) \<and> query_valid env is_mac q")
    case False
    then show ?thesis using assms(1,2) q
      by (intro finish_alone [of 0 _ _ _ _ _ _ "handle_lookup_get env srv req cors w"])
        (auto simp: dispatch_get_def handle_lookup_get_def lookup_query_def query_valid_def Let_def finish_def split: if_splits)
  next
    case True
    then have "own_step env Lookup_get req (Admitted ip, srv1, w1) (Looking_up is_mac (Entered q), srv1, w1)"
      using q h by (intro own_stepI [of 0]) (auto simp: dispatch_get_def lookup_query_def Let_def split: if_splits)
    moreover have "(own_step env Lookup_get req)\<^sup>*\<^sup>* (Looking_up is_mac (Entered q), srv1, w1) (Replied x, srv', w')"
      using True q h assms(1,2)
      by (intro looking_up_alone [where failed = "lookup_get_failed env cors srv1 (ticked 1 w1)"])
        (auto simp: handle_lookup_get_def lookup_query_def query_valid_def handler_of_def Let_def split: if_splits)
    ultimately show ?thesis by (rule converse_rtranclp_into_rtranclp)
  qed
qed

lemma run_batch_alone:
  assumes "run_batch env (handler_of env is_mac) qs srv w = Return (rs, srv', w', x)"
    and "\<And>n. distinct (env_sched env n) \<and> set (env_sched env n) = {0..<n}"
  shows "x = None \<and> (own_step env r req)\<^sup>*\<^sup>*
    (if length qs \<le> 10 then next_query is_mac qs [] else Batch_parallel is_mac (map Entered qs) [], srv, w) (Batch_done rs, srv', w')"
proof (cases "length qs \<le> 10")
  case True
  with assms(1) sequential_alone [of env is_mac qs "[]" srv w rs srv' w' x r req] show ?thesis by (simp add: run_batch_def)
next
  case False
  with assms(1) obtain fs w1 where run: "async_run env (handler_of env is_mac) qs (env_sched env (length qs)) (\<lambda>_. None) w = Return (fs, w1)"
    and col: "async_collect env fs [0..<length qs] [] srv w1 = Return (rs, srv', w', x)"
    by (auto simp: run_batch_def outcome_simps)
  from async_alone [OF run, of "map Entered qs" r req "[]" srv] assms(2) [of "length qs"] obtain futures where
    f: "(own_step env r req)\<^sup>*\<^sup>* (Batch_parallel is_mac (map Entered qs) [], srv, w) (Batch_parallel is_mac futures [], srv, w1)"
      "length futures = length qs" "\<And>i. i < length qs \<Longrightarrow> \<exists>y. futures ! i = Measured (qs ! i) (Inr y) \<and> fs i = Some (Inr y)"
    by fastforce
  have "\<exists>q y. futures ! i = Measured q (Inr y) \<and> fs i = Some (Inr y)" if "i < length futures" for i
    using f(2,3) that by metis
  then have "x = None \<and> (own_step env r req)\<^sup>*\<^sup>* (Batch_parallel is_mac futures [], srv, w1) (Batch_done rs, srv', w')"
    using col f(2) by (intro collect_alone [where fs = fs]) simp_all
  with f(1) False show ?thesis by auto
qed

lemma start_batch_alone:
  assumes "process_batch env h (if is_mac then ''MAC'' else ''IP'') items (query_valid env is_mac) srv cors w = Return (x, srv', w')"
    and h: "h = (if is_mac then mac_lookup_handler srv else lookup_handler srv)" "h = Some (handler_of env is_mac)"
    and a: "ready 0 a" "advance env r req 0 a srv w = start_batch env is_mac items srv w"
    and sched: "\<And>n. distinct (env_sched env n) \<and> set (env_sched env n) = {0..<n}"
  shows "(own_step env r req)\<^sup>*\<^sup>* (a, srv, w) (Replied x, srv', w')"
proof (cases "int (length items) > max_batch_size srv")
  case True
  with assms show ?thesis
    by (intro finish_alone [OF a(1)]) (auto simp: process_batch_def start_batch_def Let_def)
next
  case False
  let ?qs = "batch_items (query_valid env is_mac) items"
  from False assms(1) h(2) obtain rs srv1 w1 y where run: "run_batch env (handler_of env is_mac) ?qs srv w = Return (rs, srv1, w1, y)"
    by (auto simp: process_batch_def Let_def split: outcome.splits)
  note alone = run_batch_alone [OF run sched, of r req]
  have "own_step env r req (a, srv, w)
      (if length ?qs \<le> 10 then next_query is_mac ?qs [] else Batch_parallel is_mac (map Entered ?qs) [], srv, w)"
    using a False h by (intro own_stepI [OF a(1)]) (auto simp: start_batch_def Let_def)
  moreover have "(own_step env r req)\<^sup>*\<^sup>* (Batch_done rs, srv1, w1) (Replied x, srv', w')"
    using False assms(1) h(2) run alone by (intro finish_alone [of 0]) (auto simp: process_batch_def Let_def)
  ultimately show ?thesis using alone by (meson converse_rtranclp_into_rtranclp rtranclp_trans)
qed

lemma post_alone:
  assumes "prepare_request env srv req cors w = Return (Inr (Some ip, cors), srv1, w1)"
    and post: "handle_lookup_post env srv req cors w = Return (x, srv', w')"
    and h: "lookup_handler srv1 = Some (geo_handler env)" "mac_lookup_handler srv1 = Some (mac_handler env)"
    and sched: "\<And>n. distinct (env_sched env n) \<and> set (env_sched env n) = {0..<n}"
  shows "(own_step env Lookup_post req)\<^sup>*\<^sup>* (Admitted ip, srv1, w1) (Replied x, srv', w')"
proof -
  have step: "advance env Lookup_post req 0 (Admitted ip) srv1 w1 = dispatch_post env srv1 req w1" by simp
  have batch: ?thesis if body: "env_parse env (req_body req) = Inr body"
      and items: "json_array body (if is_mac then ''macs'' else ''ips'') = Some items" "json_array body (if is_mac then ''ips'' else ''macs'') = None"
    for is_mac body items
  proof (rule start_batch_alone [where is_mac = is_mac and items = items, OF _ refl _ _ _ sched])
    show "advance env Lookup_post req 0 (Admitted ip) srv1 w1 = start_batch env is_mac items srv1 w1"
      using body items by (cases is_mac) (simp_all add: dispatch_post_def)
    show "process_batch env (if is_mac then mac_lookup_handler srv1 else lookup_handler srv1) (if is_mac then ''MAC'' else ''IP'') items
        (query_valid env is_mac) srv1 cors w1 = Return (x, srv', w')"
      using body items assms(1) post h by (cases is_mac) (simp_all add: handle_lookup_post_def query_valid_cases)
  qed (use h in \<open>simp_all add: handler_of_def\<close>)
  have direct: ?thesis if "dispatch_post env srv1 req w1 = finish (handle_lookup_post env srv req cors w)"
    using that step post by (intro finish_alone [of 0]) simp_all
  show ?thesis
  proof (cases "env_parse env (req_body req)")
    case (Inl e)
    then show ?thesis using assms(1) by (intro direct) (simp add: dispatch_post_def handle_lookup_post_def)
  next
    case (Inr body)
    then show ?thesis
      using batch [of body True] batch [of body False] assms(1) direct
      by (cases "json_array body ''ips''"; cases "json_array body ''macs''") (simp_all add: dispatch_post_def handle_lookup_post_def)
  qed
qed

lemma serve_alone:
  assumes "serve env r srv req w = Return (x, srv', w')"
    and h: "lookup_handler srv = Some (geo_handler env)" "mac_lookup_handler srv = Some (mac_handler env)"
    and sched: "\<And>n. distinct (env_sched env n) \<and> set (env_sched env n) = {0..<n}"
  shows "(own_step env r req)\<^sup>*\<^sup>* (Arrived, srv, w) (Replied x, srv', w')"
proof (cases "r = Lookup_get \<or> r = Lookup_post")
  case False
  with assms(1) show ?thesis by (intro finish_alone [of 0]) auto
next
  case True
  with assms(1) obtain y srv1 w1 where prep: "prepare_request env srv req cors w = Return (y, srv1, w1)"
    by (auto simp: serve_def Let_def handle_lookup_get_def handle_lookup_post_def outcome_simps)
  note first = gate_alone [OF prep True]
  show ?thesis
  proof (cases "client_of y")
    case None
    then have "after_gate y = Replied x \<and> srv1 = srv' \<and> w1 = w'"
      using assms(1) prep True
      by (cases y rule: client_of.cases) (auto simp: serve_def Let_def handle_lookup_get_def handle_lookup_post_def after_gate_def)
    with first show ?thesis by simp
  next
    case (Some ip)
    then obtain res where "y = Inr (Some ip, res)" by (cases y rule: client_of.cases) auto
    with prepare_Some prep have y: "y = Inr (Some ip, cors)" by blast
    have "lookup_handler srv1 = Some (geo_handler env)" "mac_lookup_handler srv1 = Some (mac_handler env)"
      using prep y h by (auto simp: prepare_request_def Let_def outcome_simps split: outcome.splits if_splits option.splits prod.splits)
    then have "(own_step env r req)\<^sup>*\<^sup>* (Admitted ip, srv1, w1) (Replied x, srv', w')"
      using get_alone [of env srv req w ip srv1 w1 x srv' w'] post_alone [of env srv req w ip srv1 w1 x srv' w', OF _ _ _ _ sched]
        prep y assms(1) True by (auto simp: serve_def Let_def)
    with first y show ?thesis by (simp add: after_gate_def)
  qed
qed

end
