(* ===== verification/Concurrent_Server.thy ===== *)
theory Concurrent_Server
  imports Request_Threads
begin

text \<open>
  The running server: any number of request threads and the cleanup thread, interleaved in every
  way. The invariant of the shared state is that of the sequential runs; what each thread has
  established so far is stated by \<open>at_ok\<close> and survives the steps of the others, because it speaks
  of the answers the services give, which no step changes.
\<close>

section \<open>Model\<close>

record Thread =
  th_route :: route
  th_request :: Request
  th_at :: thread_at
  th_client :: "string option" \<comment> \<open>history: the address under which the gate admitted the request\<close>
  th_counted :: u64 \<comment> \<open>history: by how much the thread has raised \<open>total_requests\<close>\<close>

record System =
  sys_server :: IPGeoHTTPServer
  sys_world :: World
  sys_threads :: "nat \<Rightarrow> Thread option"
  sys_admitted :: "string \<Rightarrow> time_point list" \<comment> \<open>history: when the gate admitted an address\<close>
  sys_clients :: "string set" \<comment> \<open>history: the client addresses of all requests\<close>

definition system_start :: "IPGeoHTTPServer \<Rightarrow> World \<Rightarrow> System" where
  "system_start srv w = \<lparr>sys_server = srv, sys_world = w, sys_threads = Map.empty,
     sys_admitted = (\<lambda>_. []), sys_clients = {}\<rparr>"

definition thread_start :: "route \<Rightarrow> Request \<Rightarrow> Thread" where
  "thread_start r req = \<lparr>th_route = r, th_request = req, th_at = Arrived, th_client = None, th_counted = 0\<rparr>"

primrec admitted_as :: "thread_at \<Rightarrow> string option" where
  "admitted_as Arrived = None"
| "admitted_as (Admitted ip) = Some ip"
| "admitted_as (Refused ip) = None"
| "admitted_as (Looking_up is_mac l) = None"
| "admitted_as (Recorded j) = None"
| "admitted_as (Batch_sequential is_mac l qs results) = None"
| "admitted_as (Batch_parallel is_mac futures results) = None"
| "admitted_as (Batch_unwinding is_mac futures e) = None"
| "admitted_as (Batch_done results) = None"
| "admitted_as (Replied x) = None"

definition known_client :: "string option \<Rightarrow> thread_at \<Rightarrow> string option" where
  "known_client client a = (case admitted_as a of None \<Rightarrow> client | Some ip \<Rightarrow> Some ip)"

definition raised :: "IPGeoHTTPServer \<Rightarrow> IPGeoHTTPServer \<Rightarrow> u64" where
  "raised srv srv' = total_requests (metrics srv') - total_requests (metrics srv)"

definition moved :: "Thread \<Rightarrow> thread_at \<Rightarrow> u64 \<Rightarrow> Thread" where
  "moved t a k = t\<lparr>th_at := a, th_client := known_client (th_client t) a, th_counted := th_counted t + k\<rparr>"

abbreviation accepted :: "nat \<Rightarrow> route \<Rightarrow> Request \<Rightarrow> System \<Rightarrow> System" where
  "accepted i r req s \<equiv> s\<lparr>sys_threads := (sys_threads s)(i \<mapsto> thread_start r req),
     sys_clients := insert (get_real_client_ip req) (sys_clients s)\<rparr>"

inductive request_step :: "Env \<Rightarrow> System \<Rightarrow> System \<Rightarrow> bool" for env :: Env where
  thread: "sys_threads s i = Some t \<Longrightarrow> ready n (th_at t) \<Longrightarrow>
    advance env (th_route t) (th_request t) n (th_at t) (sys_server s) (sys_world s) = Return (a, srv, w) \<Longrightarrow>
    request_step env s (s\<lparr>sys_server := srv, sys_world := w,
      sys_threads := (sys_threads s)(i \<mapsto> moved t a (raised (sys_server s) srv)),
      sys_admitted := admit env (admitted_as a) (sys_world s) (sys_admitted s)\<rparr>)"

inductive system_step :: "Env \<Rightarrow> System \<Rightarrow> System \<Rightarrow> bool" for env :: Env where
  arrive: "sys_threads s i = None \<Longrightarrow> system_step env s (accepted i r req s)"
| run: "request_step env s s' \<Longrightarrow> system_step env s s'"
| clean: "enable_rate_limiter (sys_server s) \<Longrightarrow> cleanup_pass env (sys_server s) (sys_world s) = Return (srv, w) \<Longrightarrow>
    system_step env s (s\<lparr>sys_server := srv, sys_world := w\<rparr>)"

abbreviation system_run :: "Env \<Rightarrow> System \<Rightarrow> System \<Rightarrow> bool" where
  "system_run env \<equiv> (system_step env)\<^sup>*\<^sup>*"

abbreviation request_run :: "Env \<Rightarrow> System \<Rightarrow> System \<Rightarrow> bool" where
  "request_run env \<equiv> (request_step env)\<^sup>*\<^sup>*"

lemma request_run_system: "request_run env s s' \<Longrightarrow> system_run env s s'"
  by (erule mono_rtranclp [rule_format, rotated]) (rule system_step.run)

section \<open>What a thread knows\<close>

definition answer_of :: "(string \<Rightarrow> json) \<Rightarrow> (string \<Rightarrow> json) \<Rightarrow> bool \<Rightarrow> string \<Rightarrow> json" where
  "answer_of f g is_mac = (if is_mac then g else f)"

primrec lookup_ok :: "(string \<Rightarrow> json) \<Rightarrow> lookup_at \<Rightarrow> bool" where
  "lookup_ok ans (Entered q) \<longleftrightarrow> True"
| "lookup_ok ans (Timing q t) \<longleftrightarrow> True"
| "lookup_ok ans (Filling q t) \<longleftrightarrow> True"
| "lookup_ok ans (Found q r t) \<longleftrightarrow> lr_data r = ans q"
| "lookup_ok ans (Measured q x) \<longleftrightarrow> (\<exists>r lat. x = Inr (r, lat) \<and> lr_data r = ans q)"

definition get_target :: "Env \<Rightarrow> Request \<Rightarrow> string \<Rightarrow> (bool \<times> string) option" where
  \<comment> \<open>what an admitted GET request looks up, if it is in order\<close>
  "get_target env req ip =
     (if get_param_value req ''mac'' \<noteq> [] \<and> get_param_value req ''ip'' \<noteq> [] then None
      else let (is_mac, q) = lookup_query req ip in if query_valid env is_mac q then Some (is_mac, q) else None)"

definition batch_target :: "Env \<Rightarrow> int \<Rightarrow> Request \<Rightarrow> (bool \<times> string list) option" where
  \<comment> \<open>what an admitted POST request looks up, if it is in order\<close>
  "batch_target env limit req =
     (case env_parse env (req_body req) of
        Inl e \<Rightarrow> None
      | Inr body \<Rightarrow>
          (case (json_array body ''ips'', json_array body ''macs'') of
             (Some ips, None) \<Rightarrow> if int (length ips) \<le> limit then Some (False, filter (query_valid env False) (json_strings ips)) else None
           | (None, Some macs) \<Rightarrow> if int (length macs) \<le> limit then Some (True, filter (query_valid env True) (json_strings macs)) else None
           | _ \<Rightarrow> None))"

lemma batch_items_valid: "batch_items validator items = filter validator (json_strings items)"
  by (simp add: batch_items_filter json_strings_def)

definition sent :: "string \<Rightarrow> exn + Response \<Rightarrow> bool" where
  "sent s x \<longleftrightarrow> (\<exists>res. x = Inr res \<and> sent_status res = 200 \<and> content res = s)"

definition replied_ok :: "Env \<Rightarrow> int \<Rightarrow> (bool \<Rightarrow> string \<Rightarrow> json) \<Rightarrow> route \<Rightarrow> Request \<Rightarrow> string option \<Rightarrow> u64 \<Rightarrow> exn + Response \<Rightarrow> bool" where
  "replied_ok env limit ans r req client k x \<longleftrightarrow>
     (\<forall>ip is_mac q s. r = Lookup_get \<and> client = Some ip \<and> get_target env req ip = Some (is_mac, q) \<and>
        env_dump env (ans is_mac q) = Inr s \<longrightarrow> sent s x \<and> k = 1) \<and>
     (\<forall>ip is_mac qs s. r = Lookup_post \<and> client = Some ip \<and> batch_target env limit req = Some (is_mac, qs) \<and>
        env_dump env (JArr (map (ans is_mac) qs)) = Inr s \<longrightarrow> sent s x \<and> k = of_nat (length qs))"

fun at_ok :: "Env \<Rightarrow> IPGeoHTTPServer \<Rightarrow> (bool \<Rightarrow> string \<Rightarrow> json) \<Rightarrow> route \<Rightarrow> Request \<Rightarrow> string option \<Rightarrow> u64 \<Rightarrow> thread_at \<Rightarrow> bool" where
  "at_ok env srv0 ans r req client k Arrived \<longleftrightarrow> client = None \<and> k = 0"
| "at_ok env srv0 ans r req client k (Admitted ip) \<longleftrightarrow> client = Some ip \<and> k = 0 \<and> r \<in> {Lookup_get, Lookup_post}"
| "at_ok env srv0 ans r req client k (Refused ip) \<longleftrightarrow> client = None \<and> k = 0 \<and> enable_rate_limiter srv0"
| "at_ok env srv0 ans r req client k (Looking_up is_mac l) \<longleftrightarrow> r = Lookup_get \<and> k = 0 \<and> lookup_ok (ans is_mac) l \<and>
     (\<exists>ip. client = Some ip \<and> get_target env req ip = Some (is_mac, query_of l))"
| "at_ok env srv0 ans r req client k (Recorded j) \<longleftrightarrow> r = Lookup_get \<and> k = 1 \<and>
     (\<exists>ip is_mac q. client = Some ip \<and> get_target env req ip = Some (is_mac, q) \<and> j = ans is_mac q)"
| "at_ok env srv0 ans r req client k (Batch_sequential is_mac l qs results) \<longleftrightarrow> r = Lookup_post \<and> lookup_ok (ans is_mac) l \<and>
     (\<exists>seen. batch_target env (max_batch_size srv0) req = Some (is_mac, seen @ query_of l # qs) \<and>
        results = map (ans is_mac) seen \<and> k = of_nat (length seen))"
| "at_ok env srv0 ans r req client k (Batch_parallel is_mac futures results) \<longleftrightarrow> r = Lookup_post \<and>
     list_all (lookup_ok (ans is_mac)) futures \<and> k = of_nat (length results) \<and> length results \<le> length futures \<and>
     batch_target env (max_batch_size srv0) req = Some (is_mac, map query_of futures) \<and>
     results = map (ans is_mac) (take (length results) (map query_of futures))"
| "at_ok env srv0 ans r req client k (Batch_unwinding is_mac futures e) \<longleftrightarrow> False"
| "at_ok env srv0 ans r req client k (Batch_done results) \<longleftrightarrow> r = Lookup_post \<and>
     (\<exists>is_mac qs. batch_target env (max_batch_size srv0) req = Some (is_mac, qs) \<and> results = map (ans is_mac) qs \<and>
        k = of_nat (length qs))"
| "at_ok env srv0 ans r req client k (Replied x) \<longleftrightarrow> replied_ok env (max_batch_size srv0) ans r req client k x"

fun todo :: "thread_at \<Rightarrow> nat \<times> nat" where
  \<comment> \<open>what a thread has before it: phases, and steps within its phase\<close>
  "todo Arrived = (3, 0)"
| "todo (Admitted ip) = (2, 0)"
| "todo (Refused ip) = (2, 0)"
| "todo (Looking_up is_mac l) = (1, steps_left l + 2)"
| "todo (Recorded j) = (1, 1)"
| "todo (Batch_sequential is_mac l qs results) = (1, steps_left l + 5 * length qs + 2)"
| "todo (Batch_parallel is_mac futures results) = (1, sum_list (map steps_left futures) + (length futures - length results) + 2)"
| "todo (Batch_unwinding is_mac futures e) = (1, sum_list (map steps_left futures) + 1)"
| "todo (Batch_done results) = (1, 1)"
| "todo (Replied x) = (0, 0)"

definition shorter :: "thread_at \<Rightarrow> thread_at \<Rightarrow> bool" where
  "shorter a' a \<longleftrightarrow> (todo a', todo a) \<in> less_than <*lex*> less_than"

section \<open>Lookups in the shared world\<close>

lemma world_probe_ok:
  assumes "app_world env f g n w"
  shows "\<exists>c w'. world_probe env is_mac now q w = Return (c, w') \<and> (c = None \<or> c = Some (answer_of f g is_mac q)) \<and>
    app_world env f g n w'"
proof (cases is_mac)
  case True
  with assms mac_steps.probe_law [of "env_sqlite env" "env_dump env" "env_hash env" "mac_service w" now q] show ?thesis
    by (auto simp: world_probe_def app_world_def geo_world_def mac_world_def answer_of_def)
next
  case False
  with assms geo_steps.probe_law [of "env_mmdb env" "env_dump env" "env_hash env" "geo_service w" now q] show ?thesis
    by (auto simp: world_probe_def app_world_def geo_world_def mac_world_def answer_of_def)
qed

lemma world_fill_ok:
  assumes "app_world env f g n w"
  shows "\<exists>w'. world_fill env is_mac now q w = Return (answer_of f g is_mac q, w') \<and> app_world env f g n w'"
proof (cases is_mac)
  case True
  with assms mac_steps.fill_law [of "env_sqlite env" "env_dump env" "env_hash env" "mac_service w" now q] show ?thesis
    by (auto simp: world_fill_def app_world_def geo_world_def mac_world_def answer_of_def)
next
  case False
  with assms geo_steps.fill_law [of "env_mmdb env" "env_dump env" "env_hash env" "geo_service w" now q] show ?thesis
    by (auto simp: world_fill_def app_world_def geo_world_def mac_world_def answer_of_def)
qed

lemma lookup_step_ok:
  assumes w: "app_world env f g n w" and l: "\<not> measured l" "lookup_ok (answer_of f g is_mac) l"
  shows "\<exists>l' w'. lookup_step env is_mac l w = Return (l', w') \<and> lookup_ok (answer_of f g is_mac) l' \<and>
    query_of l' = query_of l \<and> steps_left l' < steps_left l \<and> app_world env f g n w'"
proof (cases l)
  case (Timing q t)
  from world_probe_ok [OF w, of is_mac "env_system env (tick w)" q] Timing app_world_ticked show ?thesis by force
next
  case (Filling q t)
  from world_fill_ok [OF w, of is_mac "env_system env (tick w)" q] Filling app_world_ticked show ?thesis by force
qed (use l app_world_ticked [OF w] in \<open>auto simp: measured_def\<close>)

section \<open>Every step goes well\<close>

text \<open>
  The step of a thread completes, keeps the invariant of the shared state and what the thread knows, and
  brings the thread closer to its reply.
\<close>

definition goes_well :: "Env \<Rightarrow> int \<Rightarrow> IPGeoHTTPServer \<Rightarrow> (string \<Rightarrow> json) \<Rightarrow> (string \<Rightarrow> json) \<Rightarrow> route \<Rightarrow> Request \<Rightarrow>
    (string \<Rightarrow> time_point list) \<Rightarrow> string set \<Rightarrow> string option \<Rightarrow> u64 \<Rightarrow> thread_at \<Rightarrow> IPGeoHTTPServer \<Rightarrow> World \<Rightarrow> stepped \<Rightarrow> bool" where
  "goes_well env mr srv0 f g r req G C client k a srv w res \<longleftrightarrow> (\<exists>a' srv' w'. res = Return (a', srv', w') \<and>
     app_ok env mr srv0 f g (admit env (admitted_as a') w G) C srv' w' \<and>
     at_ok env srv0 (answer_of f g) r req (known_client client a') (k + raised srv srv') a' \<and> shorter a' a)"

lemma goes_wellI:
  assumes "res = Return (a', srv', w')" "app_ok env mr srv0 f g (admit env (admitted_as a') w G) C srv' w'"
    and "at_ok env srv0 (answer_of f g) r req (known_client client a') (k + raised srv srv') a'" "shorter a' a"
  shows "goes_well env mr srv0 f g r req G C client k a srv w res"
  using assms unfolding goes_well_def by blast

lemma shorterI: "fst (todo a') < fst (todo a) \<or> fst (todo a') = fst (todo a) \<and> snd (todo a') < snd (todo a) \<Longrightarrow> shorter a' a"
  by (cases "todo a'"; cases "todo a") (auto simp: shorter_def)

lemma wf_shorter: "wf {(a', a). shorter a' a}"
proof -
  have "{(a', a). shorter a' a} = inv_image (less_than <*lex*> less_than) todo" by (auto simp: shorter_def inv_image_def)
  then show ?thesis by (simp add: wf_lex_prod)
qed

lemma admit_None [simp]: "admit env None w G = G"
  by (simp add: admit_def)

lemma raised_same [simp]: "raised srv srv = 0" "raised srv (srv\<lparr>rate_limiter := rl\<rparr>) = 0"
  by (simp_all add: raised_def)

lemma finish_goes:
  assumes "completes (app_ok env mr srv0 f g G C) res" "0 < fst (todo a)"
    and "\<And>x srv' w'. res = Return (x, srv', w') \<Longrightarrow>
      replied_ok env (max_batch_size srv0) (answer_of f g) r req client (k + raised srv srv') x"
  shows "goes_well env mr srv0 f g r req G C client k a srv w (finish res)"
proof -
  from assms(1) obtain x srv' w' where res: "res = Return (x, srv', w')" "app_ok env mr srv0 f g G C srv' w'"
    by (auto simp: completes_def)
  with assms(2,3) show ?thesis
    by (intro goes_wellI [where a' = "Replied x"]) (auto simp: finish_def known_client_def intro: shorterI)
qed

lemma lookup_of_goes:
  assumes env: "env_ok env" and ok: "app_ok env mr srv0 f g G C srv w"
    and l: "\<not> measured l" "lookup_ok (answer_of f g is_mac) l"
    and a: "\<And>l'. lookup_ok (answer_of f g is_mac) l' \<Longrightarrow> query_of l' = query_of l \<Longrightarrow> steps_left l' < steps_left l \<Longrightarrow>
      at_ok env srv0 (answer_of f g) r req client k (c l') \<and> shorter (c l') a \<and> admitted_as (c l') = None"
  shows "goes_well env mr srv0 f g r req G C client k a srv w (lookup_of env is_mac c l srv w)"
proof -
  have w: "app_world env f g (tick w) w" using ok by (simp add: app_ok_def app_world_def)
  from lookup_step_ok [OF w l] obtain l' w' where l': "lookup_step env is_mac l w = Return (l', w')"
    "lookup_ok (answer_of f g is_mac) l'" "query_of l' = query_of l" "steps_left l' < steps_left l" "app_world env f g (tick w) w'" by blast
  from a [OF l'(2-4)] app_ok_later [OF env ok l'(5)] l'(1) show ?thesis
    by (intro goes_wellI [where a' = "c l'"]) (auto simp: lookup_of_def known_client_def)
qed

lemma raised_counted: "counted n srv srv' \<Longrightarrow> raised srv srv' = of_nat n"
  by (auto simp: counted_def raised_def)

lemma count_goes:
  assumes env: "env_ok env" and ok: "app_ok env mr srv0 f g G C srv w" and c: "count_request env lat srv w = (srv', w')"
    and a: "at_ok env srv0 (answer_of f g) r req client (k + 1) a'" "shorter a' a" "admitted_as a' = None"
  shows "goes_well env mr srv0 f g r req G C client k a srv w (Return (a', srv', w'))"
proof -
  note cnt = counted_request [OF c]
  have "w' = ticked 1 w" using c by (simp add: count_request_def)
  then have "app_ok env mr srv0 f g G C srv' w'"
    using app_ok_mono [OF env app_ok_counted [OF ok cnt] subset_refl, of 1] by simp
  moreover have "raised srv srv' = 1" using raised_counted [OF cnt] by simp
  ultimately show ?thesis using a by (intro goes_wellI [where a' = a']) (auto simp: known_client_def)
qed

lemma replied_other [simp]: "replied_ok env limit ans r req None k x" "r \<notin> {Lookup_get, Lookup_post} \<Longrightarrow> replied_ok env limit ans r req client k x"
  by (auto simp: replied_ok_def)

lemma other_goes:
  assumes env: "env_ok env" and ok: "app_ok env mr srv0 f g G C srv w" and C: "get_real_client_ip req \<in> C"
    and h: "lookup_handler srv0 = Some (geo_handler env)" "mac_lookup_handler srv0 = Some (mac_handler env)"
    and r: "r \<notin> {Lookup_get, Lookup_post}"
  shows "goes_well env mr srv0 f g r req G C client k Arrived srv w (finish (serve env r srv req w))"
proof (rule finish_goes)
  have "logged env r srv req w G = G" using r by (simp add: logged_def admission_def admit_def)
  with serve_completes [OF env ok h, of r req] C show "completes (app_ok env mr srv0 f g G C) (serve env r srv req w)"
    by (simp add: insert_absorb)
qed (use r in auto)

lemma app_ok_limiter:
  assumes "app_ok env mr srv0 f g G C srv w" "limiter_state env mr G' C rl (tick w + n)"
  shows "app_ok env mr srv0 f g G' C (srv\<lparr>rate_limiter := Some rl\<rparr>) (ticked n w)"
  using assms app_world_ticked [of env f g 0 w n] same_server_limiter by (auto simp: app_ok_def server_ok_def)

lemma gate_limited_goes:
  assumes env: "env_ok env" and ok: "app_ok env mr srv0 f g G C srv w" and C: "get_real_client_ip req \<in> C"
    and r: "r \<in> {Lookup_get, Lookup_post}" and limited: "enable_rate_limiter srv"
    and auth: "authenticate_request env srv req cors = Return (True, res)" and ip: "get_real_client_ip req \<noteq> []"
  shows "goes_well env mr srv0 f g r req G C None 0 Arrived srv w (gate env srv req w)"
proof -
  let ?ip = "get_real_client_ip req"
  from ok limited obtain rl where rl: "rate_limiter srv = Some rl" "limiter_state env mr G C rl (tick w)"
    by (auto simp: app_ok_def server_ok_def)
  from limiter_request [OF env rl(2), of ?ip] C obtain b rl' where
    a: "is_allowed (env_steady env (tick w)) (env_steady env (tick w + 1)) ?ip rl = Return (b, rl')" and
    st: "limiter_state env mr (if b then G(?ip := G ?ip @ [env_steady env (tick w)]) else G) C rl' (tick w + 1)"
    by (auto simp: insert_absorb)
  let ?a = "if b then Admitted ?ip else Refused ?ip"
  have "limiter_state env mr (admit env (admitted_as ?a) w G) C rl' (tick w + 2)"
    using limiter_state_mono [OF env st, of "tick w + 2" C] by (cases b) (simp_all add: admit_def)
  moreover have "enable_rate_limiter srv0" using limited ok same_server_fields(6) by (auto simp: app_ok_def)
  ultimately show ?thesis
    using app_ok_limiter [OF ok, of "admit env (admitted_as ?a) w G" rl' 2] auth ip limited rl(1) a r
    by (intro goes_wellI [where a' = ?a and srv' = "srv\<lparr>rate_limiter := Some rl'\<rparr>" and w' = "ticked 2 w"])
      (auto simp: gate_def known_client_def intro: shorterI)
qed

lemma gate_goes:
  assumes env: "env_ok env" and ok: "app_ok env mr srv0 f g G C srv w" and C: "get_real_client_ip req \<in> C"
    and r: "r \<in> {Lookup_get, Lookup_post}"
  shows "goes_well env mr srv0 f g r req G C None 0 Arrived srv w (gate env srv req w)"
proof (cases "authenticate_request env srv req cors")
  case Undefined
  then show ?thesis using authenticate_defined by blast
next
  case (Throw e)
  with ok show ?thesis by (intro goes_wellI [where a' = "Replied (Inl e)"]) (auto simp: gate_def known_client_def intro: shorterI)
next
  case (Return p)
  obtain allowed res where p: "p = (allowed, res)" by (cases p)
  let ?ip = "get_real_client_ip req"
  consider "\<not> allowed" | "allowed" "?ip = []" | "allowed" "?ip \<noteq> []" "\<not> enable_rate_limiter srv"
    | "allowed" "?ip \<noteq> []" "enable_rate_limiter srv" by blast
  then show ?thesis
  proof cases
    case 1
    with Return p ok show ?thesis
      by (intro goes_wellI [where a' = "Replied (Inr res)"]) (auto simp: gate_def known_client_def intro: shorterI)
  next
    case 2
    let ?res = "conclude (send_error_response (env_dump env) 400 ''Bad Request'' ''Unable to determine source IP address'' res) srv srv w"
    have "goes_well env mr srv0 f g r req G C None 0 Arrived srv w (finish ?res)"
      using ok by (intro finish_goes completes_conclude) auto
    with 2 Return p show ?thesis by (simp add: gate_def)
  next
    case 3
    have "app_ok env mr srv0 f g (admit env (Some ?ip) w G) C srv w" using 3 ok by (simp add: app_ok_def server_ok_def)
    with 3 Return p r show ?thesis
      by (intro goes_wellI [where a' = "Admitted ?ip" and srv' = srv and w' = w]) (auto simp: gate_def known_client_def intro: shorterI)
  next
    case 4
    with gate_limited_goes [OF env ok C r _ _ 4(2)] Return p show ?thesis by simp
  qed
qed

lemma refuse_goes:
  assumes env: "env_ok env" and ok: "app_ok env mr srv0 f g G C srv w" and limited: "enable_rate_limiter srv0"
  shows "goes_well env mr srv0 f g r req G C None 0 (Refused ip) srv w (refuse env srv ip w)"
proof -
  have "enable_rate_limiter srv" using limited ok same_server_fields(6) by (auto simp: app_ok_def)
  with ok obtain rl where rl: "rate_limiter srv = Some rl" "limiter_state env mr G C rl (tick w)"
    by (auto simp: app_ok_def server_ok_def)
  obtain n rl' where rem: "get_remaining (env_steady env (tick w)) ip rl = (n, rl')" by fastforce
  have "limiter_state env mr G C rl' (tick w + 1)"
    using limiter_state_mono [OF env limiter_remaining [OF rl(2) rem], of "tick w + 1" C] by simp
  note ok' = app_ok_limiter [OF ok this]
  show ?thesis
    unfolding refuse_def using rl(1) rem ok'
    by (auto simp: Let_def obind_Undefined_iff intro!: finish_goes completes_conclude)
qed

lemma dispatch_get_goes:
  assumes ok: "app_ok env mr srv0 f g G C srv w"
    and h: "lookup_handler srv0 = Some (geo_handler env)" "mac_lookup_handler srv0 = Some (mac_handler env)"
  shows "goes_well env mr srv0 f g Lookup_get req G C (Some ip) 0 (Admitted ip) srv w (dispatch_get env srv req ip w)"
proof -
  obtain is_mac q where q: "lookup_query req ip = (is_mac, q)" by fastforce
  show ?thesis
  proof (cases "get_target env req ip")
    case None
    then have none: "replied_ok env limit ans Lookup_get req (Some ip) k x" for limit ans k x by (simp add: replied_ok_def)
    have "\<exists>res. dispatch_get env srv req ip w = finish res \<and> completes (app_ok env mr srv0 f g G C) res"
      using None ok q unfolding dispatch_get_def get_target_def lookup_query_def Let_def
      by (auto intro!: exI completes_conclude completes_try get_failed_completes split: if_splits)
    then show ?thesis using none by (auto intro!: finish_goes)
  next
    case (Some t)
    with q have "t = (is_mac, q)" by (auto simp: get_target_def split: if_splits)
    with Some q app_ok_handlers [OF ok h] ok show ?thesis
      by (intro goes_wellI [where a' = "Looking_up is_mac (Entered q)" and srv' = srv and w' = w])
        (auto simp: dispatch_get_def get_target_def lookup_query_def Let_def known_client_def intro: shorterI split: if_splits)
  qed
qed

lemma start_batch_goes:
  assumes ok: "app_ok env mr srv0 f g G C srv w"
    and h: "lookup_handler srv0 = Some (geo_handler env)" "mac_lookup_handler srv0 = Some (mac_handler env)"
    and t: "batch_target env (max_batch_size srv0) req =
      (if int (length items) \<le> max_batch_size srv0 then Some (is_mac, batch_items (query_valid env is_mac) items) else None)"
  shows "goes_well env mr srv0 f g Lookup_post req G C client 0 (Admitted ip) srv w (start_batch env is_mac items srv w)"
proof (cases "int (length items) \<le> max_batch_size srv0")
  case False
  then have "replied_ok env (max_batch_size srv0) ans Lookup_post req client k x" for ans k x using t by (simp add: replied_ok_def)
  with False app_ok_handlers [OF ok h] ok show ?thesis
    by (auto simp: start_batch_def intro!: finish_goes completes_try lookup_failed_completes)
next
  case True
  let ?qs = "batch_items (query_valid env is_mac) items"
  let ?a = "if length ?qs \<le> 10 then next_query is_mac ?qs [] else Batch_parallel is_mac (map Entered ?qs) []"
  have "at_ok env srv0 (answer_of f g) Lookup_post req client 0 ?a" "admitted_as ?a = None" "shorter ?a (Admitted ip)"
    using t True by (auto simp: next_query_def list_all_iff comp_def intro!: shorterI split: list.splits)
  with True app_ok_handlers [OF ok h] ok show ?thesis
    by (intro goes_wellI [where a' = ?a and srv' = srv and w' = w]) (auto simp: start_batch_def Let_def known_client_def)
qed

lemma dispatch_post_goes:
  assumes ok: "app_ok env mr srv0 f g G C srv w"
    and h: "lookup_handler srv0 = Some (geo_handler env)" "mac_lookup_handler srv0 = Some (mac_handler env)"
  shows "goes_well env mr srv0 f g Lookup_post req G C client 0 (Admitted ip) srv w (dispatch_post env srv req w)"
proof (cases "env_parse env (req_body req)")
  case (Inl e)
  then have "replied_ok env limit ans Lookup_post req client k x" for limit ans k x by (simp add: replied_ok_def batch_target_def)
  with Inl ok show ?thesis by (auto simp: dispatch_post_def intro!: finish_goes lookup_failed_completes)
next
  case (Inr body)
  note ips = start_batch_goes [OF ok h, of req _ False client ip] and macs = start_batch_goes [OF ok h, of req _ True client ip]
  consider items where "json_array body ''ips'' = Some items" "json_array body ''macs'' = None"
    | items where "json_array body ''ips'' = None" "json_array body ''macs'' = Some items"
    | "json_array body ''ips'' = None \<longleftrightarrow> json_array body ''macs'' = None"
    by (cases "json_array body ''ips''"; cases "json_array body ''macs''") auto
  then show ?thesis
  proof cases
    case (1 items)
    with Inr ips [of items] show ?thesis by (simp add: dispatch_post_def batch_target_def batch_items_valid)
  next
    case (2 items)
    with Inr macs [of items] show ?thesis by (simp add: dispatch_post_def batch_target_def batch_items_valid)
  next
    case 3
    with Inr have "replied_ok env limit ans Lookup_post req client k x" for limit ans k x
      by (auto simp: replied_ok_def batch_target_def split: option.splits)
    with 3 Inr ok show ?thesis
      by (auto simp: dispatch_post_def intro!: finish_goes completes_try lookup_failed_completes split: option.splits)
  qed
qed

lemma sent_content: "sent s (Inr (set_content s ''application/json'' cors))"
  using sent_ok [of s "''application/json''"] by (simp add: sent_def set_content_def)

lemma looking_up_goes:
  assumes env: "env_ok env" and ok: "app_ok env mr srv0 f g G C srv w"
    and a: "at_ok env srv0 (answer_of f g) r req client k (Looking_up is_mac l)"
  shows "goes_well env mr srv0 f g r req G C client k (Looking_up is_mac l) srv w (advance env r req n (Looking_up is_mac l) srv w)"
proof (cases "measured l")
  case True
  with a obtain q result lat where l: "l = Measured q (Inr (result, lat))" "lr_data result = answer_of f g is_mac q"
    by (cases l) (auto simp: measured_def)
  obtain srv' w' where c: "count_request env lat srv w = (srv', w')" by fastforce
  have "at_ok env srv0 (answer_of f g) r req client (k + 1) (Recorded (lr_data result))" using a l by auto
  from count_goes [OF env ok c this] c l show ?thesis by (simp add: shorterI)
next
  case False
  then have step: "advance env r req n (Looking_up is_mac l) srv w = lookup_of env is_mac (Looking_up is_mac) l srv w"
    using Looking_up_lookup by blast
  show ?thesis unfolding step using a False
    by (intro lookup_of_goes [OF env ok]) (auto intro!: shorterI)
qed

lemma recorded_goes:
  assumes ok: "app_ok env mr srv0 f g G C srv w" and a: "at_ok env srv0 (answer_of f g) r req client k (Recorded j)"
  shows "goes_well env mr srv0 f g r req G C client k (Recorded j) srv w (advance env r req n (Recorded j) srv w)"
proof -
  from a have r: "r = Lookup_get" "k = 1" and t: "\<And>ip. client = Some ip \<Longrightarrow> \<exists>is_mac q. get_target env req ip = Some (is_mac, q) \<and> j = answer_of f g is_mac q"
    by auto
  show ?thesis
  proof (cases "env_dump env j")
    case (Inl e)
    with a show ?thesis unfolding advance.simps
      by (intro finish_goes) (auto simp: replied_ok_def intro!: get_failed_completes [OF ok])
  next
    case (Inr s)
    with a ok show ?thesis unfolding advance.simps
      by (intro finish_goes) (auto simp: replied_ok_def sent_content)
  qed
qed

lemma batch_done_goes:
  assumes ok: "app_ok env mr srv0 f g G C srv w" and a: "at_ok env srv0 (answer_of f g) r req client k (Batch_done results)"
  shows "goes_well env mr srv0 f g r req G C client k (Batch_done results) srv w (advance env r req n (Batch_done results) srv w)"
proof (cases "env_dump env (JArr results)")
  case (Inl e)
  with a show ?thesis unfolding advance.simps
    by (intro finish_goes) (auto simp: replied_ok_def intro!: lookup_failed_completes [OF ok])
next
  case (Inr s)
  with a ok show ?thesis unfolding advance.simps
    by (intro finish_goes) (auto simp: replied_ok_def sent_content)
qed

lemma sequential_goes:
  assumes env: "env_ok env" and ok: "app_ok env mr srv0 f g G C srv w"
    and a: "at_ok env srv0 (answer_of f g) r req client k (Batch_sequential is_mac l qs results)"
  shows "goes_well env mr srv0 f g r req G C client k (Batch_sequential is_mac l qs results) srv w
    (advance env r req n (Batch_sequential is_mac l qs results) srv w)"
proof (cases "measured l")
  case True
  with a obtain q result lat where l: "l = Measured q (Inr (result, lat))" "lr_data result = answer_of f g is_mac q"
    by (cases l) (auto simp: measured_def)
  obtain srv' w' where c: "count_request env lat srv w = (srv', w')" by fastforce
  from a l obtain seen where seen: "batch_target env (max_batch_size srv0) req = Some (is_mac, seen @ q # qs)"
    "results = map (answer_of f g is_mac) seen" "k = of_nat (length seen)" "r = Lookup_post" by auto
  let ?a = "next_query is_mac qs (results @ [lr_data result])"
  have "at_ok env srv0 (answer_of f g) r req client (k + 1) ?a"
    using seen l(2) by (cases qs) (auto simp: next_query_def intro!: exI [of _ "seen @ [q]"])
  moreover have "shorter ?a (Batch_sequential is_mac l qs results)" "admitted_as ?a = None"
    by (cases qs; simp add: next_query_def shorterI)+
  ultimately show ?thesis using count_goes [OF env ok c, of r req client k ?a] c l by simp
next
  case False
  then have step: "advance env r req n (Batch_sequential is_mac l qs results) srv w =
      lookup_of env is_mac (\<lambda>l. Batch_sequential is_mac l qs results) l srv w"
    using Batch_sequential_lookup by blast
  show ?thesis unfolding step using a False
    by (intro lookup_of_goes [OF env ok]) (auto intro!: shorterI)
qed

lemma sum_steps_update:
  "n < length ls \<Longrightarrow> steps_left l < steps_left (ls ! n) \<Longrightarrow> sum_list (map steps_left (ls[n := l])) < sum_list (map steps_left ls)"
proof (induction ls arbitrary: n)
  case (Cons l' ls)
  then show ?case by (cases n) auto
qed simp

lemma parallel_goes:
  assumes env: "env_ok env" and ok: "app_ok env mr srv0 f g G C srv w"
    and a: "at_ok env srv0 (answer_of f g) r req client k (Batch_parallel is_mac futures results)"
    and n: "ready n (Batch_parallel is_mac futures results)"
  shows "goes_well env mr srv0 f g r req G C client k (Batch_parallel is_mac futures results) srv w
    (advance env r req n (Batch_parallel is_mac futures results) srv w)"
proof -
  consider "n < length futures" | "\<not> n < length futures" "length results < length futures"
    | "\<not> n < length futures" "length results = length futures" using a by fastforce
  then show ?thesis
  proof cases
    case 1
    have next_at: "at_ok env srv0 (answer_of f g) r req client k (Batch_parallel is_mac (futures[n := l]) results) \<and>
        shorter (Batch_parallel is_mac (futures[n := l]) results) (Batch_parallel is_mac futures results)"
      if l: "lookup_ok (answer_of f g is_mac) l" "query_of l = query_of (futures ! n)" "steps_left l < steps_left (futures ! n)" for l
    proof -
      have "map query_of (futures[n := l]) = map query_of futures"
        using 1 l(2) by (simp add: map_update list_update_same_conv)
      moreover have "list_all (lookup_ok (answer_of f g is_mac)) (futures[n := l])"
        using 1 a l(1) by (auto simp: list_all_length nth_list_update)
      moreover have "length results \<le> length futures" using a by simp
      ultimately show ?thesis using a sum_steps_update [OF 1 l(3)] by (auto intro!: shorterI)
    qed
    have "lookup_ok (answer_of f g is_mac) (futures ! n)" "\<not> measured (futures ! n)"
      using a n 1 by (auto simp: list_all_length)
    with 1 next_at show ?thesis by (auto intro!: lookup_of_goes [OF env ok] simp del: at_ok.simps)
  next
    case 2
    with a n have "lookup_ok (answer_of f g is_mac) (futures ! length results)" "measured (futures ! length results)"
      by (auto simp: list_all_length)
    then obtain q result lat where l: "futures ! length results = Measured q (Inr (result, lat))"
      "lr_data result = answer_of f g is_mac q"
      by (cases "futures ! length results") (auto simp: measured_def)
    obtain srv' w' where c: "count_request env lat srv w = (srv', w')" by fastforce
    let ?a = "Batch_parallel is_mac futures (results @ [lr_data result])"
    have "map query_of futures ! length results = q" using 2 l by simp
    then have "at_ok env srv0 (answer_of f g) r req client (k + 1) ?a"
      using a 2 l(2) by (auto simp: take_Suc_conv_app_nth)
    with count_goes [OF env ok c, of r req client k ?a] 2 c l show ?thesis by (simp add: shorterI)
  next
    case 3
    with a ok show ?thesis
      by (intro goes_wellI [where a' = "Batch_done results" and srv' = srv and w' = w]) (auto simp: known_client_def intro: shorterI)
  qed
qed

lemma advance_goes:
  assumes env: "env_ok env" and ok: "app_ok env mr srv0 f g G C srv w" and C: "get_real_client_ip req \<in> C"
    and h: "lookup_handler srv0 = Some (geo_handler env)" "mac_lookup_handler srv0 = Some (mac_handler env)"
    and a: "at_ok env srv0 (answer_of f g) r req client k a" and n: "ready n a"
  shows "goes_well env mr srv0 f g r req G C client k a srv w (advance env r req n a srv w)"
proof (cases a)
  case Arrived
  with a gate_goes [OF env ok C, of r] other_goes [OF env ok C h, of r] show ?thesis by auto
next
  case (Admitted ip)
  with a dispatch_get_goes [OF ok h, of req ip] dispatch_post_goes [OF ok h, of req client ip] show ?thesis by auto
next
  case (Refused ip)
  with a refuse_goes [OF env ok, of r req ip] show ?thesis by simp
qed (use assms looking_up_goes [OF env ok] recorded_goes [OF ok] sequential_goes [OF env ok] parallel_goes [OF env ok] batch_done_goes [OF ok]
    in \<open>auto simp del: advance.simps at_ok.simps, auto\<close>)

section \<open>Every interleaving\<close>

definition thread_ok :: "Env \<Rightarrow> IPGeoHTTPServer \<Rightarrow> (bool \<Rightarrow> string \<Rightarrow> json) \<Rightarrow> string set \<Rightarrow> Thread \<Rightarrow> bool" where
  "thread_ok env srv0 ans C t \<longleftrightarrow> get_real_client_ip (th_request t) \<in> C \<and>
     at_ok env srv0 ans (th_route t) (th_request t) (th_client t) (th_counted t) (th_at t)"

definition counts :: "(nat \<Rightarrow> Thread option) \<Rightarrow> u64" where
  "counts ths = (\<Sum>i\<in>dom ths. th_counted (the (ths i)))"

definition system_ok :: "Env \<Rightarrow> int \<Rightarrow> IPGeoHTTPServer \<Rightarrow> (string \<Rightarrow> json) \<Rightarrow> (string \<Rightarrow> json) \<Rightarrow> System \<Rightarrow> bool" where
  "system_ok env mr srv0 f g s \<longleftrightarrow>
     app_ok env mr srv0 f g (sys_admitted s) (sys_clients s) (sys_server s) (sys_world s) \<and>
     finite (sys_clients s) \<and> finite (dom (sys_threads s)) \<and> counts (sys_threads s) = raised srv0 (sys_server s) \<and>
     (\<forall>t\<in>ran (sys_threads s). thread_ok env srv0 (answer_of f g) (sys_clients s) t)"

lemma counts_update:
  assumes "finite (dom ths)"
  shows "counts (ths(i \<mapsto> t)) = counts ths + th_counted t - (case ths i of None \<Rightarrow> 0 | Some u \<Rightarrow> th_counted u)"
proof -
  have rest: "(\<Sum>j\<in>dom ths - {i}. th_counted (the ((ths(i \<mapsto> t)) j))) = (\<Sum>j\<in>dom ths - {i}. th_counted (the (ths j)))"
    by (rule sum.cong) auto
  have new: "counts (ths(i \<mapsto> t)) = th_counted t + (\<Sum>j\<in>dom ths - {i}. th_counted (the (ths j)))"
    using assms rest by (simp add: counts_def sum.insert_remove)
  show ?thesis
  proof (cases "ths i")
    case None
    then have "dom ths - {i} = dom ths" by auto
    with new None show ?thesis by (simp add: counts_def)
  next
    case (Some u)
    then have "counts ths = th_counted u + (\<Sum>j\<in>dom ths - {i}. th_counted (the (ths j)))"
      using assms sum.remove [of "dom ths" i "\<lambda>j. th_counted (the (ths j))"] by (auto simp: counts_def)
    with new Some show ?thesis by simp
  qed
qed

lemma raised_trans: "raised srv0 srv + raised srv srv' = raised srv0 srv'"
  by (simp add: raised_def)

lemma ran_update: "u \<in> ran (m(i \<mapsto> t)) \<Longrightarrow> u = t \<or> u \<in> ran m"
  by (auto simp: ran_def split: if_splits)

lemma thread_ok_more: "thread_ok env srv0 ans C t \<Longrightarrow> C \<subseteq> D \<Longrightarrow> thread_ok env srv0 ans D t"
  by (auto simp: thread_ok_def)

lemma system_ok_start:
  assumes "app_ok env mr srv0 f g (\<lambda>_. []) {} srv0 w0"
  shows "system_ok env mr srv0 f g (system_start srv0 w0)"
  using assms by (simp add: system_ok_def system_start_def counts_def)

lemma cleanup_metrics: "cleanup_pass env srv w = Return (srv', w') \<Longrightarrow> raised srv srv' = 0"
  by (auto simp: cleanup_pass_def outcome_simps raised_def split: option.splits)

lemma thread_goes:
  assumes env: "env_ok env" and h: "lookup_handler srv0 = Some (geo_handler env)" "mac_lookup_handler srv0 = Some (mac_handler env)"
    and ok: "system_ok env mr srv0 f g s" and t: "sys_threads s i = Some t" and n: "ready n (th_at t)"
  shows "goes_well env mr srv0 f g (th_route t) (th_request t) (sys_admitted s) (sys_clients s) (th_client t) (th_counted t) (th_at t)
    (sys_server s) (sys_world s) (advance env (th_route t) (th_request t) n (th_at t) (sys_server s) (sys_world s))"
proof -
  have "thread_ok env srv0 (answer_of f g) (sys_clients s) t" using ok t by (auto simp: system_ok_def ran_def)
  with ok show ?thesis by (intro advance_goes [OF env _ _ h _ n]) (auto simp: system_ok_def thread_ok_def)
qed

lemma system_ok_request:
  assumes env: "env_ok env" and h: "lookup_handler srv0 = Some (geo_handler env)" "mac_lookup_handler srv0 = Some (mac_handler env)"
    and ok: "system_ok env mr srv0 f g s" and step: "request_step env s s'"
  shows "system_ok env mr srv0 f g s'"
  using step
proof cases
  case (thread i t n a srv w)
  let ?t = "moved t a (raised (sys_server s) srv)"
  from thread_goes [OF env h ok thread(2,3)] thread(4) have
    good: "app_ok env mr srv0 f g (admit env (admitted_as a) (sys_world s) (sys_admitted s)) (sys_clients s) srv w"
      "at_ok env srv0 (answer_of f g) (th_route t) (th_request t) (known_client (th_client t) a) (th_counted t + raised (sys_server s) srv) a"
    by (auto simp: goes_well_def)
  have "thread_ok env srv0 (answer_of f g) (sys_clients s) t" using ok thread(2) by (auto simp: system_ok_def ran_def)
  with good(2) have "thread_ok env srv0 (answer_of f g) (sys_clients s) ?t" by (simp add: thread_ok_def moved_def)
  moreover have "counts ((sys_threads s)(i \<mapsto> ?t)) = raised srv0 srv"
    using counts_update [of "sys_threads s" i ?t] ok thread(2) raised_trans [of srv0 "sys_server s" srv] by (simp add: system_ok_def moved_def)
  ultimately show ?thesis using ok good(1) thread(1) by (auto simp: system_ok_def dest!: ran_update)
qed

lemma system_ok_step:
  assumes env: "env_ok env" and h: "lookup_handler srv0 = Some (geo_handler env)" "mac_lookup_handler srv0 = Some (mac_handler env)"
    and ok: "system_ok env mr srv0 f g s" and step: "system_step env s s'"
  shows "system_ok env mr srv0 f g s'"
  using step
proof cases
  case (arrive i r req)
  let ?C = "insert (get_real_client_ip req) (sys_clients s)"
  have "app_ok env mr srv0 f g (sys_admitted s) ?C (sys_server s) (sys_world s)"
    using app_ok_mono [OF env, of mr srv0 f g "sys_admitted s" "sys_clients s" "sys_server s" "sys_world s" ?C 0] ok by (auto simp: system_ok_def)
  moreover have "thread_ok env srv0 (answer_of f g) ?C (thread_start r req)" by (simp add: thread_ok_def thread_start_def)
  ultimately show ?thesis
    using ok arrive thread_ok_more [of env srv0 "answer_of f g" "sys_clients s" _ ?C] counts_update [of "sys_threads s" i "thread_start r req"]
    by (auto simp: system_ok_def thread_start_def dest!: ran_update)
next
  case run
  show ?thesis by (rule system_ok_request [OF env h ok run])
next
  case (clean srv w)
  from cleanup_completes [OF env, of mr srv0 f g "sys_admitted s" "sys_clients s" "sys_server s" "sys_world s"] ok clean have
    "app_ok env mr srv0 f g (sys_admitted s) (sys_clients s) srv w" by (auto simp: system_ok_def)
  with ok clean cleanup_metrics [OF clean(3)] raised_trans [of srv0 "sys_server s" srv] show ?thesis by (simp add: system_ok_def)
qed

lemma system_ok_run:
  assumes "env_ok env" "build_application env files config n seed = Return (srv0, w0)" "system_run env (system_start srv0 w0) s"
  shows "system_ok env (cfg_max_requests_per_minute config) srv0 (geo_answers env w0) (mac_answers env w0) s"
  using assms(3)
proof (induction rule: rtranclp_induct)
  case base
  show ?case by (rule system_ok_start [OF build_app_ok [OF assms(1,2)]])
next
  case (step s s')
  from system_ok_step [OF assms(1) build_application_parts(1,2) [OF assms(2)] step.IH step.hyps(2)] show ?case .
qed

text \<open>How many addresses a request looks up, when it was admitted, is in order and can be answered.\<close>

definition lookups_of :: "Env \<Rightarrow> int \<Rightarrow> (bool \<Rightarrow> string \<Rightarrow> json) \<Rightarrow> Thread \<Rightarrow> nat option" where
  "lookups_of env limit ans t =
     (case (th_client t, th_route t) of
        (Some ip, Lookup_get) \<Rightarrow>
          (case get_target env (th_request t) ip of
             Some (is_mac, q) \<Rightarrow> if \<exists>s. env_dump env (ans is_mac q) = Inr s then Some 1 else None
           | None \<Rightarrow> None)
      | (Some ip, Lookup_post) \<Rightarrow>
          (case batch_target env limit (th_request t) of
             Some (is_mac, qs) \<Rightarrow> if \<exists>s. env_dump env (JArr (map (ans is_mac) qs)) = Inr s then Some (length qs) else None
           | None \<Rightarrow> None)
      | _ \<Rightarrow> None)"

lemma replied_counted:
  assumes "thread_ok env srv0 ans C t" "th_at t = Replied x" "lookups_of env (max_batch_size srv0) ans t = Some k"
  shows "th_counted t = of_nat k"
proof -
  have "replied_ok env (max_batch_size srv0) ans (th_route t) (th_request t) (th_client t) (th_counted t) x"
    using assms(1,2) by (simp add: thread_ok_def)
  with assms(3) show ?thesis
    by (auto simp: replied_ok_def lookups_of_def split: option.splits route.splits if_splits)
qed

lemma counts_lookups:
  assumes ok: "system_ok env mr srv0 f g s"
    and all: "\<And>t. t \<in> ran (sys_threads s) \<Longrightarrow> (\<exists>x. th_at t = Replied x) \<and> lookups_of env (max_batch_size srv0) (answer_of f g) t \<noteq> None"
  shows "raised srv0 (sys_server s) =
    of_nat (\<Sum>i\<in>dom (sys_threads s). the (lookups_of env (max_batch_size srv0) (answer_of f g) (the (sys_threads s i))))"
proof -
  have "th_counted (the (sys_threads s i)) = of_nat (the (lookups_of env (max_batch_size srv0) (answer_of f g) (the (sys_threads s i))))"
    if i: "i \<in> dom (sys_threads s)" for i
  proof -
    from i obtain t where t: "sys_threads s i = Some t" "t \<in> ran (sys_threads s)" by (auto simp: ran_def)
    with all obtain x k where "th_at t = Replied x" "lookups_of env (max_batch_size srv0) (answer_of f g) t = Some k" by blast
    with replied_counted [of env srv0 "answer_of f g" "sys_clients s" t x k] ok t show ?thesis by (simp add: system_ok_def)
  qed
  with ok show ?thesis by (simp add: system_ok_def counts_def)
qed

section \<open>Threads that run alone\<close>

definition only_thread :: "System \<Rightarrow> nat \<Rightarrow> Thread \<Rightarrow> System \<Rightarrow> bool" where
  \<comment> \<open>of the threads only \<open>i\<close> has moved; it still handles the same request, and stays admitted\<close>
  "only_thread s i t s' \<longleftrightarrow> sys_clients s' = sys_clients s \<and> (\<exists>u. sys_threads s i = Some u \<and> sys_threads s' = (sys_threads s)(i \<mapsto> t) \<and>
     th_route t = th_route u \<and> th_request t = th_request u \<and> (th_client u \<noteq> None \<longrightarrow> th_client t \<noteq> None))"

lemma only_thread_trans: "only_thread s i t s1 \<Longrightarrow> only_thread s1 i t' s' \<Longrightarrow> only_thread s i t' s'"
  by (auto simp: only_thread_def)

lemma own_step_system:
  assumes "sys_threads s i = Some t" "own_step env (th_route t) (th_request t) (th_at t, sys_server s, sys_world s) (a, srv, w)"
  shows "\<exists>s' t'. request_step env s s' \<and> only_thread s i t' s' \<and> th_at t' = a \<and> sys_server s' = srv \<and> sys_world s' = w"
proof -
  from assms(2) obtain n where n: "ready n (th_at t)"
    "advance env (th_route t) (th_request t) n (th_at t) (sys_server s) (sys_world s) = Return (a, srv, w)" by (auto simp: own_step_def)
  show ?thesis
    by (rule exI, rule exI [of _ "moved t a (raised (sys_server s) srv)"], intro conjI, rule request_step.thread [OF assms(1) n])
      (use assms(1) in \<open>auto simp: only_thread_def moved_def known_client_def split: option.splits\<close>)
qed

lemma own_run_system:
  assumes "(own_step env r req)\<^sup>*\<^sup>* x (a', srv', w')"
    and "x = (a, srv, w)" "sys_threads s i = Some t" "th_at t = a" "th_route t = r" "th_request t = req" "sys_server s = srv" "sys_world s = w"
  shows "\<exists>s' t'. request_run env s s' \<and> only_thread s i t' s' \<and> th_at t' = a' \<and> sys_server s' = srv' \<and> sys_world s' = w'"
  using assms
proof (induction arbitrary: a srv w s t rule: converse_rtranclp_induct)
  case base
  then show ?case by (intro exI [of _ s] exI [of _ t]) (auto simp: only_thread_def)
next
  case (step y z)
  obtain b srv1 w1 where z: "z = (b, srv1, w1)" by (cases z)
  from own_step_system [of s i t env b srv1 w1] step z obtain s1 t1 where
    s1: "request_step env s s1" "only_thread s i t1 s1" "th_at t1 = b" "sys_server s1 = srv1" "sys_world s1 = w1" by auto
  have t1: "sys_threads s1 i = Some t1" "th_route t1 = r" "th_request t1 = req" using s1(2) step.prems by (auto simp: only_thread_def)
  from step.IH [OF z t1(1) s1(3) t1(2,3) s1(4,5)] obtain s' t' where "request_run env s1 s'" "only_thread s1 i t' s'" "th_at t' = a'"
    "sys_server s' = srv'" "sys_world s' = w'" by blast
  with s1(1) only_thread_trans [OF s1(2)] show ?case
    by (intro exI [of _ s'] exI [of _ t']) (auto intro: converse_rtranclp_into_rtranclp)
qed

lemma ready_exists:
  assumes "at_ok env srv0 ans r req client k a" "\<And>x. a \<noteq> Replied x"
  shows "\<exists>n. ready n a"
proof (cases a)
  case (Batch_parallel is_mac futures results)
  then show ?thesis
    by (cases "\<exists>i<length futures. \<not> measured (futures ! i)") (auto intro: exI [of _ "length futures"])
qed (use assms in auto)

lemma thread_replies:
  assumes env: "env_ok env" and h: "lookup_handler srv0 = Some (geo_handler env)" "mac_lookup_handler srv0 = Some (mac_handler env)"
    and "system_ok env mr srv0 f g s" "sys_threads s i = Some t"
  shows "\<exists>s' t' x. request_run env s s' \<and> only_thread s i t' s' \<and> th_at t' = Replied x"
  using assms(4,5)
proof (induction "th_at t" arbitrary: s t rule: wf_induct_rule [OF wf_shorter, case_names less])
  case less
  have at_t: "at_ok env srv0 (answer_of f g) (th_route t) (th_request t) (th_client t) (th_counted t) (th_at t)"
    using less.prems by (auto simp: system_ok_def thread_ok_def ran_def)
  show ?case
  proof (cases "\<exists>x. th_at t = Replied x")
    case True
    with less.prems(2) show ?thesis by (intro exI [of _ s] exI [of _ t]) (auto simp: only_thread_def)
  next
    case False
    with ready_exists [OF at_t] obtain n where n: "ready n (th_at t)" by blast
    from thread_goes [OF env h less.prems n] obtain a srv w where
      a: "advance env (th_route t) (th_request t) n (th_at t) (sys_server s) (sys_world s) = Return (a, srv, w)" "shorter a (th_at t)"
      by (auto simp: goes_well_def)
    from own_step_system [OF less.prems(2), of env a srv w] n a(1) obtain s1 t1 where
      s1: "request_step env s s1" "only_thread s i t1 s1" "th_at t1 = a" by (auto simp: own_step_def)
    have "(th_at t1, th_at t) \<in> {(a', a). shorter a' a}" using a(2) s1(3) by simp
    moreover have "system_ok env mr srv0 f g s1" by (rule system_ok_request [OF env h less.prems(1) s1(1)])
    moreover have "sys_threads s1 i = Some t1" using s1(2) by (auto simp: only_thread_def)
    ultimately obtain s' t' x where "request_run env s1 s'" "only_thread s1 i t' s'" "th_at t' = Replied x" using less.hyps by blast
    with s1 show ?thesis by (meson converse_rtranclp_into_rtranclp only_thread_trans)
  qed
qed

end
