(* ===== verification/Server_Lifecycle.thy ===== *)
theory Server_Lifecycle
  imports Main
begin

text \<open>
  \<open>start\<close>, \<open>start_server_and_wait\<close>, \<open>stop\<close> and \<open>cleanup_thread_func\<close> of \<open>http_server.cpp\<close> and the
  signal handler of \<open>main.cpp\<close> as a step relation on the threads involved: the caller of \<open>start\<close>,
  the server thread inside \<open>listen\<close>, the cleanup thread and the signals. What is used of the HTTP
  library: \<open>listen\<close> returns true only after \<open>stop\<close> was called.
\<close>

section \<open>Model\<close>

datatype main_pc =
    Not_started
  | Grace \<comment> \<open>waiting up to 500 ms for \<open>listen\<close> to fail\<close>
  | Waiting \<comment> \<open>the loop on \<open>shutdown_requested\<close> and \<open>server_running\<close>\<close>
  | Stopping \<comment> \<open>before \<open>server_.stop()\<close>\<close>
  | Joining \<comment> \<open>before \<open>server_thread.join()\<close>\<close>
  | Returned bool

datatype listener = No_thread | Listening | Listen_returned bool

datatype cleaner =
    No_cleaner
  | Cleaner_waiting \<comment> \<open>in \<open>wait_for\<close>, or before one of the tests of the stop token\<close>
  | Cleaner_cleaning \<comment> \<open>past the second test, before the end of \<open>rate_limiter_->cleanup()\<close>\<close>
  | Cleaner_exited

record life =
  main_at :: main_pc
  server_thread :: listener
  server_running :: bool
  shutdown_requested :: bool
  stop_called :: bool
  cleanup_thread :: cleaner
  stop_token :: bool
  cleanups :: nat \<comment> \<open>calls of \<open>rate_limiter_->cleanup()\<close> so far\<close>
  signal_log :: "string list" \<comment> \<open>names passed to \<open>signal_safe_log\<close>\<close>

definition life_init :: life where
  "life_init = \<lparr>main_at = Not_started, server_thread = No_thread, server_running = True,
     shutdown_requested = False, stop_called = False, cleanup_thread = No_cleaner, stop_token = False,
     cleanups = 0, signal_log = []\<rparr>"

definition handle_signal :: "string \<Rightarrow> life \<Rightarrow> life" where
  "handle_signal name s =
     (if \<not> shutdown_requested s
      then s\<lparr>shutdown_requested := True, signal_log := signal_log s @ [name]\<rparr> else s)"

definition return_from_start :: "bool \<Rightarrow> life \<Rightarrow> life" where
  \<comment> \<open>\<open>request_stop\<close> when the cleanup thread is joinable, then return\<close>
  "return_from_start b s =
     s\<lparr>main_at := Returned b, stop_token := (cleanup_thread s \<noteq> No_cleaner \<or> stop_token s)\<rparr>"

inductive step :: "bool \<Rightarrow> bool \<Rightarrow> life \<Rightarrow> life \<Rightarrow> bool" for has_handler limited where
  start_refused: "main_at s = Not_started \<Longrightarrow> \<not> has_handler \<Longrightarrow>
    step has_handler limited s (s\<lparr>main_at := Returned False\<rparr>)"
| start: "main_at s = Not_started \<Longrightarrow> has_handler \<Longrightarrow>
    step has_handler limited s (s\<lparr>main_at := Grace, server_thread := Listening, server_running := True,
      cleanup_thread := (if limited then Cleaner_waiting else No_cleaner)\<rparr>)"
| listen_fails: "server_thread s = Listening \<Longrightarrow>
    step has_handler limited s (s\<lparr>server_thread := Listen_returned False, server_running := False\<rparr>)"
| listen_ends: "server_thread s = Listening \<Longrightarrow> stop_called s \<Longrightarrow>
    step has_handler limited s (s\<lparr>server_thread := Listen_returned True, server_running := True\<rparr>)"
| grace_failed: "main_at s = Grace \<Longrightarrow> \<not> server_running s \<Longrightarrow> server_thread s = Listen_returned b \<Longrightarrow>
    step has_handler limited s (return_from_start False s)"
| grace_over: "main_at s = Grace \<Longrightarrow> server_running s \<Longrightarrow>
    step has_handler limited s (s\<lparr>main_at := Waiting\<rparr>)"
| leave_loop: "main_at s = Waiting \<Longrightarrow> shutdown_requested s \<or> \<not> server_running s \<Longrightarrow>
    step has_handler limited s (s\<lparr>main_at := Stopping\<rparr>)"
| call_stop: "main_at s = Stopping \<Longrightarrow>
    step has_handler limited s (s\<lparr>main_at := Joining, stop_called := True\<rparr>)"
| join: "main_at s = Joining \<Longrightarrow> server_thread s = Listen_returned b \<Longrightarrow>
    step has_handler limited s (return_from_start (server_running s) s)"
| wake: "cleanup_thread s = Cleaner_waiting \<Longrightarrow> \<not> stop_token s \<Longrightarrow>
    step has_handler limited s (s\<lparr>cleanup_thread := Cleaner_cleaning\<rparr>)"
| clean: "cleanup_thread s = Cleaner_cleaning \<Longrightarrow>
    step has_handler limited s (s\<lparr>cleanup_thread := Cleaner_waiting, cleanups := cleanups s + 1\<rparr>)"
| cleaner_exits: "cleanup_thread s = Cleaner_waiting \<Longrightarrow> stop_token s \<Longrightarrow>
    step has_handler limited s (s\<lparr>cleanup_thread := Cleaner_exited\<rparr>)"
| signal: "step has_handler limited s (handle_signal name s)"
| external_stop: "step has_handler limited s (s\<lparr>stop_called := True\<rparr>)" \<comment> \<open>\<open>IPGeoHTTPServer::stop\<close>\<close>

inductive_simps step_iff: "step has_handler limited s t"

inductive reachable :: "bool \<Rightarrow> bool \<Rightarrow> life \<Rightarrow> bool" for has_handler limited where
  init: "reachable has_handler limited life_init"
| next_step: "reachable has_handler limited s \<Longrightarrow> step has_handler limited s t \<Longrightarrow> reachable has_handler limited t"

section \<open>Invariant\<close>

fun main_todo :: "main_pc \<Rightarrow> nat" where
  "main_todo Not_started = 8"
| "main_todo Grace = 4"
| "main_todo Waiting = 3"
| "main_todo Stopping = 2"
| "main_todo Joining = 1"
| "main_todo (Returned b) = 0"

fun main_ok :: "bool \<Rightarrow> main_pc \<Rightarrow> life \<Rightarrow> bool" where
  "main_ok has_handler Not_started s \<longleftrightarrow> server_thread s = No_thread"
| "main_ok has_handler Grace s \<longleftrightarrow> server_thread s \<noteq> No_thread"
| "main_ok has_handler Waiting s \<longleftrightarrow> server_thread s \<noteq> No_thread"
| "main_ok has_handler Stopping s \<longleftrightarrow> server_thread s \<noteq> No_thread \<and> (shutdown_requested s \<or> \<not> server_running s)"
| "main_ok has_handler Joining s \<longleftrightarrow>
     server_thread s \<noteq> No_thread \<and> stop_called s \<and> (shutdown_requested s \<or> \<not> server_running s)"
| "main_ok has_handler (Returned b) s \<longleftrightarrow>
     (if has_handler
      then server_thread s = Listen_returned b \<and> (b \<longrightarrow> stop_called s \<and> shutdown_requested s) \<and>
           (cleanup_thread s = No_cleaner \<or> stop_token s)
      else \<not> b \<and> server_thread s = No_thread)"

definition listener_ok :: "bool \<Rightarrow> life \<Rightarrow> bool" where
  "listener_ok has_handler s \<longleftrightarrow>
     (case server_thread s of
        No_thread \<Rightarrow> True
      | Listening \<Rightarrow> has_handler \<and> server_running s
      | Listen_returned b \<Rightarrow> has_handler \<and> server_running s = b \<and> (b \<longrightarrow> stop_called s))"

definition cleaner_ok :: "bool \<Rightarrow> bool \<Rightarrow> life \<Rightarrow> bool" where
  "cleaner_ok has_handler limited s \<longleftrightarrow>
     (cleanup_thread s = No_cleaner \<longleftrightarrow> main_at s = Not_started \<or> \<not> has_handler \<or> \<not> limited) \<and>
     (stop_token s \<longrightarrow> main_todo (main_at s) = 0) \<and> (cleanup_thread s = Cleaner_exited \<longrightarrow> stop_token s)"

definition log_ok :: "life \<Rightarrow> bool" where
  "log_ok s \<longleftrightarrow> (if shutdown_requested s then length (signal_log s) = 1 else signal_log s = [])"

definition life_ok :: "bool \<Rightarrow> bool \<Rightarrow> life \<Rightarrow> bool" where
  "life_ok has_handler limited s \<longleftrightarrow> main_ok has_handler (main_at s) s \<and> listener_ok has_handler s \<and>
     cleaner_ok has_handler limited s \<and> log_ok s"

lemma step_log: "step has_handler limited s t \<Longrightarrow> log_ok s \<Longrightarrow> log_ok t"
  by (erule step.cases) (simp_all add: log_ok_def handle_signal_def return_from_start_def)

lemma step_cleaner: "step has_handler limited s t \<Longrightarrow> cleaner_ok has_handler limited s \<Longrightarrow> cleaner_ok has_handler limited t"
  by (erule step.cases) (auto simp: cleaner_ok_def handle_signal_def return_from_start_def)

lemma step_listener:
  "step has_handler limited s t \<Longrightarrow> listener_ok has_handler s \<Longrightarrow> listener_ok has_handler t"
  by (erule step.cases)
    (simp_all add: listener_ok_def handle_signal_def return_from_start_def split: listener.splits)

lemma step_main:
  "step has_handler limited s t \<Longrightarrow> life_ok has_handler limited s \<Longrightarrow> main_ok has_handler (main_at t) t"
proof (erule step.cases)
  fix s' :: life and name assume "s = s'" "t = handle_signal name s'" "life_ok has_handler limited s"
  then show ?thesis by (cases "main_at s'") (auto simp: life_ok_def handle_signal_def)
next
  fix s' :: life assume "s = s'" "t = s'\<lparr>server_thread := Listen_returned False, server_running := False\<rparr>"
    "server_thread s' = Listening" "life_ok has_handler limited s"
  then show ?thesis by (cases "main_at s'") (auto simp: life_ok_def listener_ok_def split: if_splits)
next
  fix s' :: life assume "s = s'" "t = s'\<lparr>server_thread := Listen_returned True, server_running := True\<rparr>"
    "server_thread s' = Listening" "stop_called s'" "life_ok has_handler limited s"
  then show ?thesis by (cases "main_at s'") (auto simp: life_ok_def listener_ok_def split: if_splits)
next
  fix s' :: life assume "s = s'" "t = s'\<lparr>cleanup_thread := Cleaner_cleaning\<rparr>" "\<not> stop_token s'"
    "cleanup_thread s' = Cleaner_waiting" "life_ok has_handler limited s"
  then show ?thesis by (cases "main_at s'") (auto simp: life_ok_def split: if_splits)
next
  fix s' :: life assume "s = s'" "t = s'\<lparr>cleanup_thread := Cleaner_waiting, cleanups := cleanups s' + 1\<rparr>"
    "cleanup_thread s' = Cleaner_cleaning" "life_ok has_handler limited s"
  then show ?thesis by (cases "main_at s'") (auto simp: life_ok_def split: if_splits)
next
  fix s' :: life assume "s = s'" "t = s'\<lparr>cleanup_thread := Cleaner_exited\<rparr>" "stop_token s'" "life_ok has_handler limited s"
  then show ?thesis by (cases "main_at s'") (auto simp: life_ok_def)
next
  fix s' :: life assume "s = s'" "t = s'\<lparr>stop_called := True\<rparr>" "life_ok has_handler limited s"
  then show ?thesis by (cases "main_at s'") (auto simp: life_ok_def)
qed (auto simp: life_ok_def listener_ok_def return_from_start_def)

lemma reachable_ok: "reachable has_handler limited s \<Longrightarrow> life_ok has_handler limited s"
proof (induction rule: reachable.induct)
  case init
  then show ?case
    by (simp add: life_ok_def life_init_def listener_ok_def cleaner_ok_def log_ok_def)
next
  case (next_step s t)
  then show ?case
    using step_main step_listener step_cleaner step_log unfolding life_ok_def by blast
qed

section \<open>Progress\<close>

definition todo :: "life \<Rightarrow> nat" where
  \<comment> \<open>a bound on the steps of the threads that are still to come\<close>
  "todo s = main_todo (main_at s) + (case server_thread s of No_thread \<Rightarrow> 0 | Listening \<Rightarrow> 1 | Listen_returned b \<Rightarrow> 0) +
     (case cleanup_thread s of
        No_cleaner \<Rightarrow> 0
      | Cleaner_waiting \<Rightarrow> if stop_token s then 1 else 2
      | Cleaner_cleaning \<Rightarrow> 2
      | Cleaner_exited \<Rightarrow> 0)"

definition work :: "bool \<Rightarrow> bool \<Rightarrow> life \<Rightarrow> life \<Rightarrow> bool" where
  "work has_handler limited s t \<longleftrightarrow> step has_handler limited s t \<and> todo t < todo s"

definition all_done :: "life \<Rightarrow> bool" where
  "all_done s \<longleftrightarrow> (\<exists>b. main_at s = Returned b) \<and> cleanup_thread s \<in> {No_cleaner, Cleaner_exited}"

lemma idle_step:
  assumes "step has_handler limited s t"
  shows "todo t < todo s \<or> todo t = todo s \<and> main_at t = main_at s \<and> server_thread t = server_thread s \<and>
    (cleanup_thread t = cleanup_thread s \<or> \<not> stop_token s)"
  using assms
proof (cases rule: step.cases)
  case start
  then show ?thesis by (simp add: todo_def)
qed (auto simp: todo_def return_from_start_def handle_signal_def split: cleaner.splits listener.splits)

lemma work_shutdown: "work has_handler limited s t \<Longrightarrow> shutdown_requested s \<Longrightarrow> shutdown_requested t"
  unfolding work_def by (auto simp: step_iff return_from_start_def handle_signal_def)

lemma workI: "step has_handler limited s t \<Longrightarrow> todo t < todo s \<Longrightarrow> \<exists>t. work has_handler limited s t"
  by (auto simp: work_def)

lemma return_todo: "0 < main_todo (main_at s) \<Longrightarrow> todo (return_from_start b s) < todo s"
  by (auto simp: todo_def return_from_start_def split: cleaner.splits)

lemma cleaner_works:
  assumes "life_ok has_handler limited s" "main_at s = Returned b" "\<not> all_done s"
  shows "\<exists>t. work has_handler limited s t"
proof -
  have stop: "stop_token s"
    using assms by (cases "cleanup_thread s") (auto simp: all_done_def life_ok_def cleaner_ok_def split: if_splits)
  show ?thesis
  proof (cases "cleanup_thread s = Cleaner_cleaning")
    case True
    with stop show ?thesis by (intro workI [OF step.clean [OF True]]) (simp add: todo_def)
  next
    case False
    with assms(2,3) have c: "cleanup_thread s = Cleaner_waiting" by (cases "cleanup_thread s") (auto simp: all_done_def)
    with stop show ?thesis by (intro workI [OF step.cleaner_exits [OF c stop]]) (simp add: todo_def)
  qed
qed

lemma shutdown_enabled:
  assumes "life_ok has_handler limited s" "shutdown_requested s" "\<not> all_done s"
  shows "\<exists>t. work has_handler limited s t"
proof (cases "main_at s")
  case Not_started
  show ?thesis
  proof (cases has_handler)
    case True
    with Not_started show ?thesis by (intro workI [OF step.start]) (simp_all add: todo_def)
  next
    case False
    with Not_started show ?thesis by (intro workI [OF step.start_refused]) (simp_all add: todo_def)
  qed
next
  case Grace
  show ?thesis
  proof (cases "server_running s")
    case True
    with Grace show ?thesis by (intro workI [OF step.grace_over]) (simp_all add: todo_def)
  next
    case False
    with assms(1) Grace obtain b where b: "server_thread s = Listen_returned b"
      by (cases "server_thread s") (auto simp: life_ok_def listener_ok_def)
    with Grace show ?thesis by (intro workI [OF step.grace_failed [OF Grace False b]] return_todo) simp
  qed
next
  case Waiting
  with assms(2) show ?thesis by (intro workI [OF step.leave_loop]) (simp_all add: todo_def)
next
  case Stopping
  then show ?thesis by (intro workI [OF step.call_stop]) (simp_all add: todo_def)
next
  case Joining
  show ?thesis
  proof (cases "server_thread s")
    case (Listen_returned b)
    with Joining show ?thesis by (intro workI [OF step.join [OF Joining Listen_returned]] return_todo) simp
  next
    case Listening
    with Joining assms(1) show ?thesis
      by (intro workI [OF step.listen_ends [OF Listening]]) (auto simp: todo_def life_ok_def)
  next
    case No_thread
    with Joining assms(1) show ?thesis by (simp add: life_ok_def)
  qed
next
  case (Returned b)
  from cleaner_works [OF assms(1) this assms(3)] show ?thesis .
qed

lemma shutdown_run:
  "reachable has_handler limited s \<Longrightarrow> shutdown_requested s \<Longrightarrow> \<exists>t. (work has_handler limited)\<^sup>*\<^sup>* s t \<and> all_done t"
proof (induction "todo s" arbitrary: s rule: less_induct)
  case less
  show ?case
  proof (cases "all_done s")
    case True
    then show ?thesis by blast
  next
    case False
    obtain t where t: "work has_handler limited s t"
      using shutdown_enabled [OF reachable_ok [OF less.prems(1)] less.prems(2) False] by blast
    then have "reachable has_handler limited t" "todo t < todo s"
      using less.prems(1) by (auto simp: work_def intro: reachable.next_step)
    with less.hyps [of t] work_shutdown [OF t less.prems(2)] t show ?thesis
      by (meson converse_rtranclp_into_rtranclp)
  qed
qed

section \<open>Properties\<close>

text \<open>What \<open>start\<close> returns, in every interleaving of its threads with signals and external stops: without
  a lookup handler it returns false and starts nothing; otherwise it returns only after the server
  thread has ended, with the result of \<open>listen\<close>, and it returns true only when a shutdown was
  requested and the listener was stopped. On return the cleanup thread has been told to stop, and
  at most one signal has been logged.\<close>

lemma start_result:
  assumes "reachable has_handler limited s" and "main_at s = Returned b"
  shows "(if has_handler then server_thread s = Listen_returned b \<and> (b \<longrightarrow> shutdown_requested s \<and> stop_called s) \<and>
       (cleanup_thread s \<noteq> No_cleaner \<longrightarrow> stop_token s)
     else \<not> b \<and> server_thread s = No_thread) \<and> length (signal_log s) \<le> 1"
proof -
  have "main_ok has_handler (Returned b) s" "log_ok s"
    using reachable_ok [OF assms(1)] assms(2) by (simp_all add: life_ok_def)
  then show ?thesis by (cases has_handler; cases "shutdown_requested s") (auto simp: log_ok_def)
qed


lemma example_signalled: "reachable True True (handle_signal ''SIGINT'' life_init)"
  by (rule reachable.next_step [OF reachable.init step.signal])


text \<open>Calling \<open>stop\<close> does not make \<open>start\<close> return: once \<open>listen\<close> has ended because of a stop and no
  shutdown was requested, the caller of \<open>start\<close> is still in its grace period or its wait loop, and
  no step other than a signal takes it past the loop.\<close>

lemma stop_alone_keeps_waiting:
  assumes "reachable has_handler limited s" and "server_thread s = Listen_returned True" and "\<not> shutdown_requested s"
    and "step has_handler limited s t" and "\<not> shutdown_requested t"
  shows "main_at s \<in> {Grace, Waiting} \<and> main_at t \<in> {Grace, Waiting}"
proof -
  have keep: "main_at u \<in> {Grace, Waiting}" if "life_ok has_handler limited u" "server_thread u = Listen_returned True"
    "\<not> shutdown_requested u" for u
    using that by (cases "main_at u") (auto simp: life_ok_def listener_ok_def split: if_splits)
  have "life_ok has_handler limited s" "life_ok has_handler limited t"
    using assms(1,4) reachable.next_step reachable_ok by blast+
  moreover have "server_thread t = Listen_returned True"
    using assms(4) assms(2) keep [OF \<open>life_ok has_handler limited s\<close> assms(2,3)]
    by (cases rule: step.cases) (simp_all add: return_from_start_def handle_signal_def)
  ultimately show ?thesis using keep assms(2,3,5) by blast
qed

lemma example_stopped:
  "\<exists>s. reachable True False s \<and> server_thread s = Listen_returned True \<and> \<not> shutdown_requested s \<and> main_at s = Waiting"
proof -
  define s1 where "s1 = life_init\<lparr>main_at := Grace, server_thread := Listening, server_running := True, cleanup_thread := No_cleaner\<rparr>"
  define s2 where "s2 = s1\<lparr>main_at := Waiting\<rparr>"
  define s3 where "s3 = s2\<lparr>stop_called := True\<rparr>"
  define s4 where "s4 = s3\<lparr>server_thread := Listen_returned True, server_running := True\<rparr>"
  note defs = s1_def s2_def s3_def s4_def life_init_def
  have "step True False life_init s1" using step.start [of life_init True False] by (simp add: defs)
  then have 1: "reachable True False s1" by (rule reachable.next_step [OF reachable.init])
  have "step True False s1 s2" unfolding s2_def by (rule step.grace_over) (simp_all add: defs)
  with 1 have 2: "reachable True False s2" by (rule reachable.next_step)
  have "step True False s2 s3" unfolding s3_def by (rule step.external_stop)
  with 2 have 3: "reachable True False s3" by (rule reachable.next_step)
  have "step True False s3 s4" unfolding s4_def by (rule step.listen_ends) (simp_all add: defs)
  with 3 have "reachable True False s4" by (rule reachable.next_step)
  then show ?thesis by (intro exI [of _ s4]) (simp add: defs)
qed

end
