(* ===== verification/Program_Run.thy ===== *)
theory Program_Run
  imports Concurrent_Server Server_Lifecycle
begin

text \<open>
  The whole run of \<open>run_application\<close>: the threads that control the server (\<open>Server_Lifecycle\<close>), the
  requests they serve (\<open>Concurrent_Server\<close>) and the destruction of the objects they share. The two
  systems meet in the listener, which accepts requests and, as the HTTP library does, returns only when
  its workers have finished, and in the cleanup thread, whose pass is one step of both. The
  local variables of \<open>run_application\<close> are destroyed in reverse order once \<open>start\<close> has returned.
\<close>

section \<open>Model\<close>

datatype object =
    Geo_service | Mac_service \<comment> \<open>local variables of \<open>run_application\<close>\<close>
  | Httplib_server | Lookup_handler | Mac_lookup_handler | Cache_stats_handler | Limiter_object | Auth_object
  | Metrics_object | Password_object | Cleanup_jthread \<comment> \<open>members of \<open>http_server\<close>\<close>

definition server_members :: "object list" where
  "server_members = [Httplib_server, Lookup_handler, Mac_lookup_handler, Cache_stats_handler, Limiter_object,
     Auth_object, Metrics_object, Password_object, Cleanup_jthread]"

definition constructed :: "object list" where
  "constructed = [Geo_service, Mac_service] @ server_members"

record Program =
  control :: life
  served :: System
  pending :: "object list" \<comment> \<open>not yet destroyed, the next to go first\<close>

definition program_start :: "IPGeoHTTPServer \<Rightarrow> World \<Rightarrow> Program" where
  "program_start srv w = \<lparr>control = life_init, served = system_start srv w, pending = rev constructed\<rparr>"

definition can_start :: "IPGeoHTTPServer \<Rightarrow> bool" where
  "can_start srv \<longleftrightarrow> lookup_handler srv \<noteq> None"

definition cleans :: "IPGeoHTTPServer \<Rightarrow> bool" where
  "cleans srv \<longleftrightarrow> enable_rate_limiter srv \<and> rate_limiter srv \<noteq> None"

definition control_step :: "Program \<Rightarrow> life \<Rightarrow> bool" where
  "control_step p = step (can_start (sys_server (served p))) (cleans (sys_server (served p))) (control p)"

definition replied :: "Thread \<Rightarrow> bool" where
  "replied t \<longleftrightarrow> (\<exists>x. th_at t = Replied x)"

definition all_replied :: "System \<Rightarrow> bool" where
  "all_replied s \<longleftrightarrow> (\<forall>t\<in>ran (sys_threads s). replied t)"

definition returned :: "life \<Rightarrow> bool" where
  "returned c \<longleftrightarrow> (\<exists>b. main_at c = Returned b)"

inductive program_step :: "Env \<Rightarrow> Program \<Rightarrow> Program \<Rightarrow> bool" for env :: Env where
  accept: "server_thread (control p) = Listening \<Longrightarrow> sys_threads (served p) i = None \<Longrightarrow>
    program_step env p (p\<lparr>served := accepted i r req (served p)\<rparr>)"
| handle: "request_step env (served p) s \<Longrightarrow> program_step env p (p\<lparr>served := s\<rparr>)"
| control: "control_step p c \<Longrightarrow> cleanups c = cleanups (control p) \<Longrightarrow>
    \<comment> \<open>\<open>listen\<close> joins its workers before it returns\<close>
    server_thread (control p) = Listening \<longrightarrow> server_thread c = Listening \<or> all_replied (served p) \<Longrightarrow>
    \<comment> \<open>nobody calls \<open>stop\<close> on a destroyed server\<close>
    stop_called c \<longrightarrow> stop_called (control p) \<or> Httplib_server \<in> set (pending p) \<Longrightarrow>
    program_step env p (p\<lparr>control := c\<rparr>)"
| cleanup: "control_step p c \<Longrightarrow> cleanups c \<noteq> cleanups (control p) \<Longrightarrow>
    cleanup_pass env (sys_server (served p)) (sys_world (served p)) = Return (srv, w) \<Longrightarrow>
    program_step env p (p\<lparr>control := c, served := (served p)\<lparr>sys_server := srv, sys_world := w\<rparr>\<rparr>)"
| destroy: "returned (control p) \<Longrightarrow> pending p = x # rest \<Longrightarrow>
    \<comment> \<open>the destructor of \<open>jthread\<close> joins the thread\<close>
    x \<noteq> Cleanup_jthread \<or> cleanup_thread (control p) \<in> {No_cleaner, Cleaner_exited} \<Longrightarrow>
    program_step env p (p\<lparr>pending := rest\<rparr>)"

abbreviation program_run :: "Env \<Rightarrow> Program \<Rightarrow> Program \<Rightarrow> bool" where
  "program_run env \<equiv> (program_step env)\<^sup>*\<^sup>*"

definition in_use :: "Program \<Rightarrow> object set" where
  \<comment> \<open>what the caller of \<open>start\<close>, the listener, the requests and the cleanup thread may touch in their next step\<close>
  "in_use p = (if returned (control p) then {} else set constructed) \<union>
     (if server_thread (control p) = Listening then {Httplib_server} else {}) \<union>
     (if all_replied (served p) then {} else set constructed - {Cleanup_jthread}) \<union>
     (if cleanup_thread (control p) = Cleaner_cleaning then {Limiter_object} else {})"

section \<open>Invariant\<close>

definition program_ok :: "Env \<Rightarrow> IPGeoHTTPServer \<Rightarrow> World \<Rightarrow> Program \<Rightarrow> bool" where
  "program_ok env srv0 w0 p \<longleftrightarrow> reachable (can_start srv0) (cleans srv0) (control p) \<and>
     system_run env (system_start srv0 w0) (served p) \<and> (all_replied (served p) \<or> server_thread (control p) = Listening) \<and>
     (\<exists>gone. rev constructed = gone @ pending p \<and> (gone \<noteq> [] \<longrightarrow> all_done (control p)))"

lemma server_kept:
  assumes "env_ok env" "build_application env files config n seed = Return (srv0, w0)" "system_run env (system_start srv0 w0) s"
  shows "can_start (sys_server s) = can_start srv0" "cleans (sys_server s) = cleans srv0"
    "cleans srv0 \<Longrightarrow> enable_rate_limiter (sys_server s)"
proof -
  have ok: "app_ok env (cfg_max_requests_per_minute config) srv0 (geo_answers env w0) (mac_answers env w0) (sys_admitted s') (sys_clients s')
      (sys_server s') (sys_world s')" if "system_run env (system_start srv0 w0) s'" for s'
    using system_ok_run [OF assms(1,2) that] by (simp add: system_ok_def)
  have same: "same_server srv0 (sys_server s)" using ok [OF assms(3)] by (simp add: app_ok_def)
  have cleans: "cleans (sys_server s') \<longleftrightarrow> enable_rate_limiter (sys_server s')" if "system_run env (system_start srv0 w0) s'" for s'
    using ok [OF that] by (auto simp: app_ok_def server_ok_def cleans_def)
  from cleans [OF rtranclp.rtrancl_refl] have start: "cleans srv0 \<longleftrightarrow> enable_rate_limiter srv0" by (simp add: system_start_def)
  show "can_start (sys_server s) = can_start srv0" using same same_server_fields(1) by (simp add: can_start_def)
  show "cleans (sys_server s) = cleans srv0" "cleans srv0 \<Longrightarrow> enable_rate_limiter (sys_server s)"
    using cleans [OF assms(3)] start same same_server_fields(6) by auto
qed

lemma returned_listener: "reachable h l c \<Longrightarrow> returned c \<Longrightarrow> server_thread c \<noteq> Listening"
  using reachable_ok by (fastforce simp: returned_def life_ok_def split: if_splits)

lemma all_done_step: "step h l c c' \<Longrightarrow> all_done c \<Longrightarrow> all_done c'"
  by (auto simp: all_done_def step_iff return_from_start_def handle_signal_def split: if_splits)

lemma cleaning_limited: "reachable h l c \<Longrightarrow> cleanup_thread c = Cleaner_cleaning \<Longrightarrow> l"
  using reachable_ok [of h l c] by (auto simp: life_ok_def cleaner_ok_def)

lemma cleanups_step: "step h l c c' \<Longrightarrow> cleanups c' \<noteq> cleanups c \<Longrightarrow> cleanup_thread c = Cleaner_cleaning \<and> server_thread c' = server_thread c"
  by (auto simp: step_iff return_from_start_def handle_signal_def split: if_splits)

lemma stays_replied:
  assumes "request_step env s s'" "all_replied s"
  shows "False"
  using assms(1)
proof cases
  case (thread i t n a srv w)
  with assms(2) have "replied t" by (auto simp: all_replied_def ran_def)
  with thread(3) show ?thesis by (auto simp: replied_def)
qed

lemma start_ok: "program_ok env srv0 w0 (program_start srv0 w0)"
  by (auto simp: program_ok_def program_start_def system_start_def all_replied_def intro: reachable.init)

lemma program_ok_step:
  assumes env: "env_ok env" and built: "build_application env files config n seed = Return (srv0, w0)"
    and ok: "program_ok env srv0 w0 p" and step: "program_step env p p'"
  shows "program_ok env srv0 w0 p'"
proof -
  have run: "system_run env (system_start srv0 w0) (served p)" and life: "reachable (can_start srv0) (cleans srv0) (control p)"
    using ok by (simp_all add: program_ok_def)
  note kept = server_kept [OF env built run]
  have life': "reachable (can_start srv0) (cleans srv0) c" "step (can_start srv0) (cleans srv0) (control p) c" if "control_step p c" for c
    using that life kept by (auto simp: control_step_def intro: reachable.next_step)
  from step show ?thesis
  proof cases
    case (accept i r req)
    with ok run show ?thesis by (auto simp: program_ok_def intro: rtranclp.rtrancl_into_rtrancl system_step.arrive)
  next
    case (handle s)
    with ok stays_replied [OF handle(2)] run show ?thesis
      by (auto simp: program_ok_def intro: rtranclp.rtrancl_into_rtrancl system_step.run)
  next
    case (control c)
    with ok life' [OF control(2)] all_done_step [of _ _ "control p" c] show ?thesis by (fastforce simp: program_ok_def)
  next
    case (cleanup c srv w)
    note cleaning = cleanups_step [OF life'(2) [OF cleanup(2)] cleanup(3)]
    with cleaning_limited [OF life] kept(3) have "enable_rate_limiter (sys_server (served p))" by blast
    from system_step.clean [OF this cleanup(4)] run have
      "system_run env (system_start srv0 w0) ((served p)\<lparr>sys_server := srv, sys_world := w\<rparr>)" by (rule rtranclp.rtrancl_into_rtrancl [rotated])
    with ok cleanup life' [OF cleanup(2)] cleaning all_done_step [of _ _ "control p" c] show ?thesis
      by (fastforce simp: program_ok_def all_replied_def)
  next
    case (destroy x rest)
    from ok obtain gone where gone: "rev constructed = gone @ pending p" "gone \<noteq> [] \<longrightarrow> all_done (control p)"
      by (auto simp: program_ok_def)
    have "gone = [] \<longrightarrow> x = Cleanup_jthread" using gone(1) destroy(3) by (auto simp: constructed_def server_members_def)
    with gone destroy have "all_done (control p)" by (auto simp: all_done_def returned_def)
    with ok gone destroy show ?thesis by (auto simp: program_ok_def intro: exI [of _ "gone @ [x]"])
  qed
qed

lemma program_ok_run:
  assumes "env_ok env" "build_application env files config n seed = Return (srv0, w0)" "program_run env (program_start srv0 w0) p"
  shows "program_ok env srv0 w0 p"
  using assms(3) by (induction rule: rtranclp_induct) (auto intro: start_ok program_ok_step [OF assms(1,2)])

lemma program_returned:
  assumes "program_ok env srv0 w0 p" "main_at (control p) = Returned b"
  shows "all_replied (served p)" "main_ok (can_start srv0) (Returned b) (control p)"
proof -
  have life: "reachable (can_start srv0) (cleans srv0) (control p)" using assms(1) by (simp add: program_ok_def)
  show "main_ok (can_start srv0) (Returned b) (control p)" using reachable_ok [OF life] assms(2) by (simp add: life_ok_def)
  have "returned (control p)" using assms(2) by (simp add: returned_def)
  with returned_listener [OF life] assms(1) show "all_replied (served p)" by (simp add: program_ok_def)
qed

lemma in_use_alive:
  assumes "program_ok env srv0 w0 p"
  shows "in_use p \<subseteq> set (pending p)"
proof -
  obtain gone where gone: "rev constructed = gone @ pending p" "gone \<noteq> [] \<longrightarrow> all_done (control p)"
    using assms by (auto simp: program_ok_def)
  have idle: "in_use p = {}" if "all_done (control p)"
  proof -
    have ret: "returned (control p)" using that by (auto simp: all_done_def returned_def)
    then have "server_thread (control p) \<noteq> Listening" using assms returned_listener by (auto simp: program_ok_def)
    with ret that assms show ?thesis by (auto simp: in_use_def program_ok_def all_done_def)
  qed
  have "set constructed = set gone \<union> set (pending p)" using arg_cong [OF gone(1), of set] by simp
  moreover have "in_use p \<subseteq> set constructed" by (auto simp: in_use_def constructed_def server_members_def)
  ultimately show ?thesis using gone(2) idle by (cases "gone = []") auto
qed

section \<open>Progress\<close>

definition answers_kept :: "System \<Rightarrow> System \<Rightarrow> bool" where
  \<comment> \<open>the same requests, none of them without the reply it had\<close>
  "answers_kept s s' \<longleftrightarrow> dom (sys_threads s') = dom (sys_threads s) \<and>
     (\<forall>i t t'. sys_threads s i = Some t \<longrightarrow> sys_threads s' i = Some t' \<longrightarrow>
        th_route t' = th_route t \<and> th_request t' = th_request t \<and> (replied t \<longrightarrow> t' = t))"

lemma answers_kept_trans: "answers_kept s s1 \<Longrightarrow> answers_kept s1 s2 \<Longrightarrow> answers_kept s s2"
  unfolding answers_kept_def by (metis domD domI)

lemma answers_kept_same: "sys_threads s' = sys_threads s \<Longrightarrow> answers_kept s s'"
  by (simp add: answers_kept_def)

lemma only_thread_kept: "only_thread s i t' s' \<Longrightarrow> sys_threads s i = Some t \<Longrightarrow> \<not> replied t \<Longrightarrow> answers_kept s s'"
  by (auto simp: only_thread_def answers_kept_def split: if_splits)

lemma system_ok_requests:
  assumes "env_ok env" "lookup_handler srv0 = Some (geo_handler env)" "mac_lookup_handler srv0 = Some (mac_handler env)"
    "system_ok env mr srv0 f g s" "request_run env s s'"
  shows "system_ok env mr srv0 f g s'"
  using assms(5,4) by (induction rule: rtranclp_induct) (auto intro: system_ok_request [OF assms(1-3)])

lemma requests_finish:
  assumes env: "env_ok env" and h: "lookup_handler srv0 = Some (geo_handler env)" "mac_lookup_handler srv0 = Some (mac_handler env)"
    and "system_ok env mr srv0 f g s"
  shows "\<exists>s'. request_run env s s' \<and> all_replied s' \<and> answers_kept s s'"
  using assms(4)
proof (induction "card {i \<in> dom (sys_threads s). \<not> replied (the (sys_threads s i))}" arbitrary: s rule: less_induct)
  case less
  let ?busy = "\<lambda>s. {i \<in> dom (sys_threads s). \<not> replied (the (sys_threads s i))}"
  show ?case
  proof (cases "all_replied s")
    case True
    then show ?thesis by (intro exI [of _ s]) (simp add: answers_kept_same)
  next
    case False
    then obtain i t where t: "sys_threads s i = Some t" "\<not> replied t" by (auto simp: all_replied_def ran_def)
    from thread_replies [OF env h less.prems t(1)] obtain s1 t1 x where
      s1: "request_run env s s1" "only_thread s i t1 s1" "th_at t1 = Replied x" by blast
    have "?busy s1 \<subseteq> ?busy s - {i}" using s1(2,3) by (auto simp: only_thread_def replied_def split: if_splits)
    moreover have "finite (?busy s)" using less.prems by (simp add: system_ok_def)
    moreover have "i \<in> ?busy s" using t by auto
    ultimately have "card (?busy s1) < card (?busy s)" by (meson card_Diff1_less card_mono finite_Diff order_le_less_trans)
    from less.hyps [OF this system_ok_requests [OF env h less.prems s1(1)]] obtain s' where
      "request_run env s1 s'" "all_replied s'" "answers_kept s1 s'" by blast
    with s1(1) answers_kept_trans [OF only_thread_kept [OF s1(2) t]] show ?thesis by (meson rtranclp_trans)
  qed
qed

lemma handle_run: "request_run env s s' \<Longrightarrow> served p = s \<Longrightarrow> program_run env p (p\<lparr>served := s'\<rparr>)"
proof (induction rule: rtranclp_induct)
  case base
  then show ?case by (cases p) simp
next
  case (step s' s'')
  from program_step.handle [where p = "p\<lparr>served := s'\<rparr>" and s = s''] step.hyps(2)
  have "program_step env (p\<lparr>served := s'\<rparr>) (p\<lparr>served := s''\<rparr>)" by simp
  with step show ?case by (auto intro: rtranclp.rtrancl_into_rtrancl)
qed

lemma teardown: "all_done (control p) \<Longrightarrow> program_run env p (p\<lparr>pending := []\<rparr>)"
proof (induction "pending p" arbitrary: p)
  case Nil
  then show ?case by (cases p) simp
next
  case (Cons x rest)
  have "returned (control p)" "cleanup_thread (control p) \<in> {No_cleaner, Cleaner_exited}"
    using Cons.prems by (auto simp: all_done_def returned_def)
  from program_step.destroy [OF this(1) Cons.hyps(2) [symmetric] disjI2 [OF this(2)]] Cons.hyps(1) [of "p\<lparr>pending := rest\<rparr>"] Cons.prems
  show ?case by (auto intro: converse_rtranclp_into_rtranclp)
qed

lemma control_works:
  assumes env: "env_ok env" and built: "build_application env files config n seed = Return (srv0, w0)"
    and ok: "program_ok env srv0 w0 p" and shutdown: "shutdown_requested (control p)" and idle: "all_replied (served p)"
    and busy: "\<not> all_done (control p)"
  shows "\<exists>p'. program_step env p p' \<and> sys_threads (served p') = sys_threads (served p) \<and> shutdown_requested (control p') \<and>
    Server_Lifecycle.todo (control p') < Server_Lifecycle.todo (control p)"
proof -
  have run: "system_run env (system_start srv0 w0) (served p)" and life: "reachable (can_start srv0) (cleans srv0) (control p)"
    and alive: "pending p = rev constructed" using ok busy by (auto simp: program_ok_def)
  note kept = server_kept [OF env built run]
  from shutdown_enabled [OF reachable_ok [OF life] shutdown busy] obtain c where
    c: "work (can_start srv0) (cleans srv0) (control p) c" by blast
  have step: "control_step p c" using c kept by (simp add: control_step_def work_def)
  have less: "Server_Lifecycle.todo c < Server_Lifecycle.todo (control p)" "shutdown_requested c"
    using c work_shutdown [OF c shutdown] by (simp_all add: work_def)
  show ?thesis
  proof (cases "cleanups c = cleanups (control p)")
    case True
    have "program_step env p (p\<lparr>control := c\<rparr>)"
      using program_step.control [OF step True] idle alive by (simp add: constructed_def server_members_def)
    with less show ?thesis by (intro exI [of _ "p\<lparr>control := c\<rparr>"]) simp
  next
    case False
    from c False cleanups_step cleaning_limited [OF life] kept(3) have "enable_rate_limiter (sys_server (served p))"
      unfolding work_def by blast
    with cleanup_completes [OF env] system_ok_run [OF env built run] obtain srv w where
      "cleanup_pass env (sys_server (served p)) (sys_world (served p)) = Return (srv, w)" unfolding system_ok_def by blast
    from program_step.cleanup [OF step False this] less show ?thesis by (intro exI conjI) (assumption, simp_all)
  qed
qed

lemma control_finishes:
  assumes "env_ok env" "build_application env files config n seed = Return (srv0, w0)"
    and "program_ok env srv0 w0 p" "shutdown_requested (control p)" "all_replied (served p)"
  shows "\<exists>p'. program_run env p p' \<and> all_done (control p') \<and> sys_threads (served p') = sys_threads (served p)"
  using assms(3-5)
proof (induction "Server_Lifecycle.todo (control p)" arbitrary: p rule: less_induct)
  case less
  show ?case
  proof (cases "all_done (control p)")
    case True
    then show ?thesis by blast
  next
    case False
    from control_works [OF assms(1,2) less.prems False] obtain p1 where
      p1: "program_step env p p1" "sys_threads (served p1) = sys_threads (served p)" "shutdown_requested (control p1)"
        "Server_Lifecycle.todo (control p1) < Server_Lifecycle.todo (control p)" by blast
    have "all_replied (served p1)" using less.prems(3) p1(2) by (simp add: all_replied_def)
    from less.hyps [OF p1(4) program_ok_step [OF assms(1,2) less.prems(1) p1(1)] p1(3) this] p1 show ?thesis
      by (metis converse_rtranclp_into_rtranclp)
  qed
qed

lemma program_finishes:
  assumes "env_ok env" "build_application env files config n seed = Return (srv0, w0)"
    and "program_ok env srv0 w0 p" "shutdown_requested (control p)"
  shows "\<exists>p'. program_run env p p' \<and> pending p' = [] \<and> all_done (control p') \<and> all_replied (served p') \<and> answers_kept (served p) (served p')"
proof -
  have "system_run env (system_start srv0 w0) (served p)" using assms(3) by (simp add: program_ok_def)
  from requests_finish [OF assms(1) build_application_parts(1,2) [OF assms(2)] system_ok_run [OF assms(1,2) this]] obtain s where
    s: "request_run env (served p) s" "all_replied s" "answers_kept (served p) s" by blast
  let ?p = "p\<lparr>served := s\<rparr>"
  have run: "program_run env p ?p" by (rule handle_run [OF s(1) refl])
  have "program_ok env srv0 w0 ?p" using run assms(3) by (induction rule: rtranclp_induct) (auto intro: program_ok_step [OF assms(1,2)])
  from control_finishes [OF assms(1,2) this] assms(4) s(2) obtain p1 where
    p1: "program_run env ?p p1" "all_done (control p1)" "sys_threads (served p1) = sys_threads s" by auto
  have "program_run env p (p1\<lparr>pending := []\<rparr>)" using run p1(1) teardown [OF p1(2)] by (meson rtranclp_trans)
  moreover have "all_replied (served p1)" "answers_kept (served p) (served p1)"
    using s p1(3) answers_kept_trans [OF s(3) answers_kept_same] by (simp_all add: all_replied_def)
  ultimately show ?thesis using p1(2) by (intro exI [of _ "p1\<lparr>pending := []\<rparr>"]) simp
qed

section \<open>Runs without requests\<close>

definition outcome_of_start :: "Env \<Rightarrow> IPGeoHTTPServer \<Rightarrow> World \<Rightarrow> bool \<Rightarrow> bool" where
  \<comment> \<open>\<open>start\<close> may return \<open>b\<close>, and everything has been destroyed afterwards\<close>
  "outcome_of_start env srv w b \<longleftrightarrow>
     (\<exists>p. program_run env (program_start srv w) p \<and> main_at (control p) = Returned b \<and> pending p = [])"

lemma cleanups_mono: "(step h l)\<^sup>*\<^sup>* c c' \<Longrightarrow> cleanups c \<le> cleanups c'"
proof (induction rule: rtranclp_induct)
  case (step c' c'')
  from step.hyps(2) have "cleanups c' \<le> cleanups c''"
    by (cases rule: step.cases) (simp_all add: return_from_start_def handle_signal_def)
  with step.IH show ?case by simp
qed simp

lemma control_run:
  assumes "(step (can_start (sys_server (served p))) (cleans (sys_server (served p))))\<^sup>*\<^sup>* (control p) c" "cleanups c = cleanups (control p)"
    "all_replied (served p)" "Httplib_server \<in> set (pending p)"
  shows "program_run env p (p\<lparr>control := c\<rparr>)"
  using assms(1,2)
proof (induction rule: rtranclp_induct)
  case base
  then show ?case by (cases p) simp
next
  case (step c c')
  then have same: "cleanups c = cleanups (control p)" using cleanups_mono [OF step.hyps(1)] cleanups_mono [of _ _ c c'] by fastforce
  from program_step.control [where p = "p\<lparr>control := c\<rparr>" and c = c'] step.hyps(2) step.prems same assms(3,4)
  have "program_step env (p\<lparr>control := c\<rparr>) (p\<lparr>control := c'\<rparr>)" by (simp add: control_step_def)
  with step.IH [OF same] show ?case by (rule rtranclp.rtrancl_into_rtrancl)
qed

definition stopped :: "bool \<Rightarrow> life" where
  \<comment> \<open>the end of a run in which a signal ended the listener\<close>
  "stopped limited = \<lparr>main_at = Returned True, server_thread = Listen_returned True, server_running = True,
     shutdown_requested = True, stop_called = True, cleanup_thread = (if limited then Cleaner_exited else No_cleaner),
     stop_token = limited, cleanups = 0, signal_log = [''SIGTERM'']\<rparr>"

lemma stopped_run: "(step True limited)\<^sup>*\<^sup>* life_init (stopped limited)"
proof -
  let ?c = "\<lambda>pc th sig stop. \<lparr>main_at = pc, server_thread = th, server_running = True, shutdown_requested = sig, stop_called = stop,
     cleanup_thread = (if limited then Cleaner_waiting else No_cleaner), stop_token = False, cleanups = 0,
     signal_log = (if sig then [''SIGTERM''] else [])\<rparr>"
  let ?r = "return_from_start True (?c Joining (Listen_returned True) True True)"
  note [trans] = rtranclp.rtrancl_into_rtrancl
  have "(step True limited)\<^sup>*\<^sup>* life_init (?c Grace Listening False False)"
    using step.start [of life_init True limited] by (intro r_into_rtranclp) (simp add: life_init_def)
  also have "step True limited (?c Grace Listening False False) (?c Waiting Listening False False)"
    using step.grace_over [of "?c Grace Listening False False" True limited] by simp
  also have "step True limited (?c Waiting Listening False False) (?c Waiting Listening True False)"
    using step.signal [of True limited "?c Waiting Listening False False" "''SIGTERM''"] by (simp add: handle_signal_def)
  also have "step True limited (?c Waiting Listening True False) (?c Stopping Listening True False)"
    using step.leave_loop [of "?c Waiting Listening True False" True limited] by simp
  also have "step True limited (?c Stopping Listening True False) (?c Joining Listening True True)"
    using step.call_stop [of "?c Stopping Listening True False" True limited] by simp
  also have "step True limited (?c Joining Listening True True) (?c Joining (Listen_returned True) True True)"
    using step.listen_ends [of "?c Joining Listening True True" True limited] by simp
  also have "step True limited (?c Joining (Listen_returned True) True True) ?r"
    using step.join [of "?c Joining (Listen_returned True) True True" True True limited] by simp
  finally have run: "(step True limited)\<^sup>*\<^sup>* life_init ?r" .
  show ?thesis
  proof (cases limited)
    case True
    then have "step True limited ?r (stopped limited)"
      using step.cleaner_exits [of ?r True limited] by (simp add: return_from_start_def stopped_def)
    with run show ?thesis by (rule rtranclp.rtrancl_into_rtrancl)
  next
    case False
    then have "?r = stopped limited" by (simp add: return_from_start_def stopped_def)
    with run show ?thesis by simp
  qed
qed

lemma stopped_done: "all_done (stopped limited)"
  by (auto simp: all_done_def stopped_def)

lemma start_may_succeed:
  assumes "can_start srv"
  shows "outcome_of_start env srv w True"
proof -
  let ?p = "program_start srv w" and ?c = "stopped (cleans srv)"
  have "program_run env ?p (?p\<lparr>control := ?c\<rparr>)"
    using stopped_run [of "cleans srv"] assms
    by (intro control_run) (auto simp: program_start_def system_start_def all_replied_def constructed_def server_members_def stopped_def life_init_def)
  moreover have "program_run env (?p\<lparr>control := ?c\<rparr>) (?p\<lparr>control := ?c, pending := []\<rparr>)"
    using teardown [of "?p\<lparr>control := ?c\<rparr>" env] stopped_done by simp
  ultimately show ?thesis unfolding outcome_of_start_def
    by (intro exI [of _ "?p\<lparr>control := ?c, pending := []\<rparr>"]) (auto simp: stopped_def)
qed

end
