(* ===== verification/Concurrent_Lookups.thy ===== *)
theory Concurrent_Lookups
  imports Lookup_Service
begin

text \<open>
  Many threads share one lookup service: those of the HTTP library and those of a batch. A thread's
  \<open>lookup\<close> holds a mutex only inside \<open>cache_.get\<close> and \<open>cache_.put\<close>, so another thread may run between the
  two and fill, evict or expire entries in the meantime. The steps below are these two parts of
  \<open>lookup\<close> (\<open>staged\<close> puts them together again); every step of every thread reads the system clock
  afresh, at whatever it shows.
\<close>

section \<open>Model\<close>

datatype lookup_thread =
    Calling string \<comment> \<open>\<open>lookup\<close> entered with this key\<close>
  | Missed string \<comment> \<open>the cache had no entry\<close>
  | Answered string LookupResult

primrec asked :: "lookup_thread \<Rightarrow> string" where
  "asked (Calling k) = k"
| "asked (Missed k) = k"
| "asked (Answered k r) = k"

type_synonym threads = "nat \<Rightarrow> lookup_thread option"

inductive thread_step ::
  "(time_point \<Rightarrow> string \<Rightarrow> 's \<Rightarrow> (json option \<times> 's) outcome) \<Rightarrow> (time_point \<Rightarrow> string \<Rightarrow> 's \<Rightarrow> (json \<times> 's) outcome) \<Rightarrow>
   threads \<times> 's \<Rightarrow> threads \<times> 's \<Rightarrow> bool"
  for probe :: "time_point \<Rightarrow> string \<Rightarrow> 's \<Rightarrow> (json option \<times> 's) outcome"
    and fill :: "time_point \<Rightarrow> string \<Rightarrow> 's \<Rightarrow> (json \<times> 's) outcome" where
  call: "ths i = None \<Longrightarrow> thread_step probe fill (ths, s) (ths(i \<mapsto> Calling k), s)"
| hit: "ths i = Some (Calling k) \<Longrightarrow> probe now k s = Return (Some j, s') \<Longrightarrow>
    thread_step probe fill (ths, s) (ths(i \<mapsto> Answered k \<lparr>lr_data = j, cache_hit = True\<rparr>), s')"
| miss: "ths i = Some (Calling k) \<Longrightarrow> probe now k s = Return (None, s') \<Longrightarrow>
    thread_step probe fill (ths, s) (ths(i \<mapsto> Missed k), s')"
| filled: "ths i = Some (Missed k) \<Longrightarrow> fill now k s = Return (j, s') \<Longrightarrow>
    thread_step probe fill (ths, s) (ths(i \<mapsto> Answered k \<lparr>lr_data = j, cache_hit = False\<rparr>), s')"

definition answers_ok :: "(string \<Rightarrow> json) \<Rightarrow> threads \<Rightarrow> bool" where
  "answers_ok f ths \<longleftrightarrow> (\<forall>i k r. ths i = Some (Answered k r) \<longrightarrow> lr_data r = f k)"

primrec runnable :: "(time_point \<Rightarrow> string \<Rightarrow> 's \<Rightarrow> (json option \<times> 's) outcome) \<Rightarrow>
    (time_point \<Rightarrow> string \<Rightarrow> 's \<Rightarrow> (json \<times> 's) outcome) \<Rightarrow> 's \<Rightarrow> lookup_thread \<Rightarrow> bool" where
  \<comment> \<open>the next part of the thread returns, at any reading of the clock\<close>
  "runnable probe fill s (Calling k) \<longleftrightarrow> (\<forall>now. \<exists>r s'. probe now k s = Return (r, s'))"
| "runnable probe fill s (Missed k) \<longleftrightarrow> (\<forall>now. \<exists>j s'. fill now k s = Return (j, s'))"
| "runnable probe fill s (Answered k r) \<longleftrightarrow> True"

definition interleaved :: "('s \<Rightarrow> bool) \<Rightarrow> ('s \<Rightarrow> string \<Rightarrow> json) \<Rightarrow> (string \<Rightarrow> json) \<Rightarrow> threads \<times> 's \<Rightarrow> bool" where
  "interleaved invar answer f = (\<lambda>(ths, s). invar s \<and> answer s = f \<and> answers_ok f ths)"

section \<open>Every interleaving\<close>

text \<open>
  The laws of the two parts are all it takes: neither relies on what happened since the other.
\<close>

context cached_service
begin

lemma probe_cases:
  assumes "invar s" "probe now k s = Return (r, s')"
  shows "(r = None \<or> r = Some (answer s k)) \<and> invar s' \<and> answer s' = answer s"
  using probe_law [OF assms(1), of now k] assms(2) by auto

lemma fill_cases:
  assumes "invar s" "fill now k s = Return (j, s')"
  shows "j = answer s k \<and> invar s' \<and> answer s' = answer s"
  using fill_law [OF assms(1), of now k] assms(2) by auto

lemma interleaved_step:
  assumes "thread_step probe fill x y" "interleaved invar answer f x"
  shows "interleaved invar answer f y"
  using assms
proof (induction rule: thread_step.induct)
  case (hit ths i k now s j s')
  with probe_cases [of s now k "Some j" s'] show ?case by (auto simp: interleaved_def answers_ok_def)
next
  case (miss ths i k now s s')
  with probe_cases [of s now k None s'] show ?case by (auto simp: interleaved_def answers_ok_def)
next
  case (filled ths i k now s j s')
  with fill_cases [of s now k j s'] show ?case by (auto simp: interleaved_def answers_ok_def)
qed (auto simp: interleaved_def answers_ok_def)

lemma interleaved_run:
  assumes "(thread_step probe fill)\<^sup>*\<^sup>* x y" "interleaved invar answer f x"
  shows "interleaved invar answer f y"
  using assms by (induction rule: rtranclp_induct) (auto intro: interleaved_step)

lemma missed_finishes:
  assumes "interleaved invar answer f (ths, s)" "ths i = Some (Missed k)"
  shows "\<exists>r s'. thread_step probe fill (ths, s) (ths(i \<mapsto> Answered k r), s') \<and> lr_data r = f k"
proof -
  from assms(1) have "invar s" "answer s = f" by (simp_all add: interleaved_def)
  with fill_law obtain s' where "fill 0 k s = Return (f k, s')" by blast
  with thread_step.filled [of ths i k fill 0 s "f k" s' probe] assms(2) show ?thesis
    by (intro exI [where x = "\<lparr>lr_data = f k, cache_hit = False\<rparr>"] exI [where x = s']) simp
qed

lemma thread_finishes:
  assumes inv: "interleaved invar answer f (ths, s)" and th: "ths i = Some th"
  shows "\<exists>r s'. (thread_step probe fill)\<^sup>*\<^sup>* (ths, s) (ths(i \<mapsto> Answered (asked th) r), s') \<and> lr_data r = f (asked th)"
proof (cases th)
  case (Calling k)
  from inv have "invar s" by (simp add: interleaved_def)
  from probe_law [OF this, of 0 k] obtain c s1 where s1: "probe 0 k s = Return (c, s1)" "c = None \<or> c = Some (answer s k)"
    by blast
  show ?thesis
  proof (cases c)
    case None
    from Calling th s1(1) None have step: "thread_step probe fill (ths, s) (ths(i \<mapsto> Missed k), s1)"
      by (auto intro: thread_step.miss)
    from missed_finishes [OF interleaved_step [OF step inv], of i k] obtain r s' where
      "thread_step probe fill (ths(i \<mapsto> Missed k), s1) (ths(i \<mapsto> Answered k r), s')" "lr_data r = f k" by auto
    with step Calling show ?thesis
      by (intro exI [where x = r] exI [where x = s']) (simp add: converse_rtranclp_into_rtranclp)
  next
    case (Some j)
    with Calling th s1(1) have "thread_step probe fill (ths, s) (ths(i \<mapsto> Answered k \<lparr>lr_data = j, cache_hit = True\<rparr>), s1)"
      by (auto intro: thread_step.hit)
    moreover have "j = f k" using s1(2) Some inv by (auto simp: interleaved_def)
    ultimately show ?thesis using Calling by (intro exI [where x = "\<lparr>lr_data = j, cache_hit = True\<rparr>"]) auto
  qed
next
  case (Missed k)
  with missed_finishes [OF inv, of i k] th show ?thesis by auto
next
  case (Answered k r)
  with th inv have "ths(i \<mapsto> Answered k r) = ths" "lr_data r = f k" by (auto simp: interleaved_def answers_ok_def)
  with Answered show ?thesis by (intro exI [where x = r] exI [where x = s]) simp
qed

text \<open>A thread that is not interrupted does what \<open>lookup\<close> does.\<close>

lemma uninterrupted:
  assumes "ths i = Some (Calling k)" "staged probe fill now now2 k s = Return (r, s')"
  shows "(thread_step probe fill)\<^sup>*\<^sup>* (ths, s) (ths(i \<mapsto> Answered k r), s')"
proof -
  from assms(2) obtain c s1 where c: "probe now k s = Return (c, s1)" by (auto simp: staged_def outcome_simps)
  show ?thesis
  proof (cases c)
    case None
    with assms(2) c obtain j where j: "fill now2 k s1 = Return (j, s')" "r = \<lparr>lr_data = j, cache_hit = False\<rparr>"
      by (auto simp: staged_def outcome_simps)
    from assms(1) c None have "thread_step probe fill (ths, s) (ths(i \<mapsto> Missed k), s1)" by (auto intro: thread_step.miss)
    moreover have "thread_step probe fill (ths(i \<mapsto> Missed k), s1) ((ths(i \<mapsto> Missed k))(i \<mapsto> Answered k r), s')"
      using thread_step.filled [of "ths(i \<mapsto> Missed k)" i k fill now2 s1 j s' probe] j by simp
    ultimately show ?thesis by (simp add: rtranclp.rtrancl_into_rtrancl)
  next
    case (Some j)
    with assms(2) c have "r = \<lparr>lr_data = j, cache_hit = True\<rparr>" "s' = s1" by (auto simp: staged_def)
    with assms(1) c Some show ?thesis by (auto intro: thread_step.hit)
  qed
qed

lemma concurrent:
  assumes "invar s0" "(thread_step probe fill)\<^sup>*\<^sup>* (Map.empty, s0) (ths, s)" "ths i = Some th"
  shows "(\<forall>k r. th = Answered k r \<longrightarrow> lr_data r = answer s0 k) \<and> runnable probe fill s th \<and>
    (\<exists>r s'. (thread_step probe fill)\<^sup>*\<^sup>* (ths, s) (ths(i \<mapsto> Answered (asked th) r), s') \<and> lr_data r = answer s0 (asked th)) \<and>
    (\<forall>now now2 k r s'. th = Calling k \<longrightarrow> staged probe fill now now2 k s = Return (r, s') \<longrightarrow>
       (thread_step probe fill)\<^sup>*\<^sup>* (ths, s) (ths(i \<mapsto> Answered k r), s'))"
proof -
  have "interleaved invar answer (answer s0) (Map.empty, s0)"
    using assms(1) by (simp add: interleaved_def answers_ok_def)
  note inv = interleaved_run [OF assms(2) this]
  with assms(3) have "\<forall>k r. th = Answered k r \<longrightarrow> lr_data r = answer s0 k"
    by (auto simp: interleaved_def answers_ok_def)
  moreover have "runnable probe fill s th"
    using inv probe_law [of s] fill_law [of s] by (cases th) (auto simp: interleaved_def, metis+)
  ultimately show ?thesis using thread_finishes [OF inv assms(3)] uninterrupted [of ths i] assms(3) by blast
qed

end

section \<open>The two services\<close>

text \<open>Concurrent lookups of a freshly opened geolocation service do not disturb each other: in every
  interleaving of any number of threads, each thread that has its answer has the one computed from the two
  databases directly; each other thread can go on at any reading of the clock, without undefined
  behaviour, and finish on its own, without waiting for any other, with that answer. A thread that is
  not interrupted does what \<open>lookup\<close> does.\<close>

lemma geo_concurrent:
  assumes "IPGeoService_new lib city_path asn_path = (Return svc, evs)"
    and "(thread_step (geo_probe hash) (geo_fill lib dump hash))\<^sup>*\<^sup>* (Map.empty, svc) (ths, s)" and "ths i = Some th"
  shows "(\<forall>ip r. th = Answered ip r \<longrightarrow> lr_data r = geo_reply lib dump svc ip) \<and>
    runnable (geo_probe hash) (geo_fill lib dump hash) s th \<and>
    (\<exists>r s'. (thread_step (geo_probe hash) (geo_fill lib dump hash))\<^sup>*\<^sup>* (ths, s) (ths(i \<mapsto> Answered (asked th) r), s') \<and>
       lr_data r = geo_reply lib dump svc (asked th)) \<and>
    (\<forall>now now2 ip r s'. th = Calling ip \<longrightarrow> IPGeoService_lookup lib dump hash now now2 ip s = Return (r, s') \<longrightarrow>
       (thread_step (geo_probe hash) (geo_fill lib dump hash))\<^sup>*\<^sup>* (ths, s) (ths(i \<mapsto> Answered ip r), s'))"
  unfolding IPGeoService_lookup_staged by (rule geo_steps.concurrent [OF geo_new_invar [OF assms(1)] assms(2,3)])

text \<open>The same for concurrent lookups of the MAC service, whose threads share one prepared statement
  under its own mutex.\<close>

lemma mac_concurrent:
  assumes "MACLookupService_new sq path = (Return svc, evs)" and "lookup_stmt (oui_db svc) \<noteq> None"
    and "(thread_step (mac_probe hash) (mac_query sq dump hash))\<^sup>*\<^sup>* (Map.empty, svc) (ths, s)" and "ths i = Some th"
  shows "(\<forall>m r. th = Answered m r \<longrightarrow> lr_data r = mac_reply sq dump svc m) \<and>
    runnable (mac_probe hash) (mac_query sq dump hash) s th \<and>
    (\<exists>r s'. (thread_step (mac_probe hash) (mac_query sq dump hash))\<^sup>*\<^sup>* (ths, s) (ths(i \<mapsto> Answered (asked th) r), s') \<and>
       lr_data r = mac_reply sq dump svc (asked th)) \<and>
    (\<forall>now now2 m r s'. th = Calling m \<longrightarrow> MACLookupService_lookup sq dump hash now now2 m s = Return (r, s') \<longrightarrow>
       (thread_step (mac_probe hash) (mac_query sq dump hash))\<^sup>*\<^sup>* (ths, s) (ths(i \<mapsto> Answered m r), s'))"
  unfolding MACLookupService_lookup_staged
  by (rule mac_steps.concurrent [OF mac_new_invar [OF assms(1,2)] assms(3,4)])

end
