(* ===== verification/Answer_Types.thy ===== *)
theory Answer_Types
  imports Lookup_Service
begin

text \<open>
  The schema of the answers of both lookup services: an object with each key once and in order, every
  member of the JSON type its key has in the interface. Each assignment \<open>result[key] = \<dots>\<close> of the
  databases and services keeps it.
\<close>

definition STRING_KEYS :: "string list" where
  "STRING_KEYS = [''ip'', ''error'', ''country'', ''country_code'', ''city'', ''continent'', ''timezone'', ''as_organization'',
     ''mac'', ''oui'', ''manufacturer'', ''registry'', ''short_name'', ''device_type'', ''registered_date'', ''address'', ''sources'']"

fun field_type :: "string \<Rightarrow> json \<Rightarrow> bool" where
  "field_type k (JBool b) \<longleftrightarrow> k = ''found''"
| "field_type k (JReal x) \<longleftrightarrow> k \<in> {''latitude'', ''longitude''}"
| "field_type k (JInt n) \<longleftrightarrow> k = ''as_number'' \<and> 0 \<le> n \<and> n < 2 ^ 32"
| "field_type k (JStr s) \<longleftrightarrow> k \<in> set STRING_KEYS"
| "field_type k j \<longleftrightarrow> False"

definition typed :: "json_object \<Rightarrow> bool" where
  "typed obj \<longleftrightarrow> obj_ok obj \<and> list_all (\<lambda>(k, v). field_type k v) obj"

definition answer_typed :: "json \<Rightarrow> bool" where
  "answer_typed j \<longleftrightarrow> (case j of JObj obj \<Rightarrow> typed obj | _ \<Rightarrow> False)"

lemma set_obj_put: "set (obj_put k v obj) \<subseteq> insert (k, v) (set obj)"
  by (induction k v obj rule: obj_put.induct) auto

lemma typed_put [intro]: "typed obj \<Longrightarrow> field_type k v \<Longrightarrow> typed (obj_put k v obj)"
  using set_obj_put [of k v obj] by (auto simp: typed_def list_all_iff)

lemma typed_foldl:
  "typed obj \<Longrightarrow> (\<And>obj x. x \<in> set xs \<Longrightarrow> typed obj \<Longrightarrow> typed (f obj x)) \<Longrightarrow> typed (foldl f obj xs)"
  by (induction xs arbitrary: obj) auto

lemma typed_puts:
  assumes "typed obj" "list_all (\<lambda>(k, v). field_type k v) ms"
  shows "typed (foldl (\<lambda>obj (k, v). obj_put k v obj) obj ms)"
  using assms(1) by (rule typed_foldl) (use assms(2) in \<open>auto simp: list_all_iff\<close>)

lemma typed_update [intro]: "typed obj \<Longrightarrow> typed ms \<Longrightarrow> typed (obj_update obj ms)"
  unfolding obj_update_def by (rule typed_puts) (simp_all add: typed_def)

lemma typed_of: "list_all (\<lambda>(k, v). field_type k v) ms \<Longrightarrow> typed (obj_of ms)"
  unfolding obj_of_def by (rule typed_puts) (simp_all add: typed_def)

lemma perform_lookup_typed: "typed (fst (perform_lookup lib this ip))"
  by (auto simp: perform_lookup_def Let_def case_prod_beta STRING_KEYS_def intro!: typed_of)

lemma u32_bound: "uint (n :: 32 word) < 4294967296"
  using uint_bounded [of n] by simp

lemma put_value_typed:
  "typed obj \<Longrightarrow> (path, key, read) \<in> set CITY_FIELDS \<union> set ASN_FIELDS \<Longrightarrow> typed (put_value lib entry obj (path, key, read))"
  by (auto simp: put_value_def CITY_FIELDS_def ASN_FIELDS_def STRING_KEYS_def u32_bound split: option.splits intro!: typed_put)

lemma database_typed:
  "typed (result_of (CityDatabase_lookup lib this ip))" "typed (result_of (ASNDatabase_lookup lib this ip))"
proof -
  obtain obj entry where obj: "perform_lookup lib this ip = (obj, entry)" by fastforce
  then have typed: "typed obj" using perform_lookup_typed [of lib this ip] by simp
  have "typed (foldl (put_value lib entry) obj CITY_FIELDS)" "typed (foldl (put_value lib entry) obj ASN_FIELDS)"
    using put_value_typed by (auto intro!: typed_foldl [OF typed])
  moreover have "typed []" by (simp add: typed_def)
  ultimately show "typed (result_of (CityDatabase_lookup lib this ip))" "typed (result_of (ASNDatabase_lookup lib this ip))"
    using typed by (cases "value_bool obj ''found'' False"; auto simp: CityDatabase_lookup_def ASNDatabase_lookup_def obj)+
qed

lemma typed_member: "typed obj \<Longrightarrow> map_of obj k = Some v \<Longrightarrow> field_type k v"
  by (auto simp: typed_def list_all_iff dest!: map_of_SomeD)

lemma cacheable_typed: "typed obj \<Longrightarrow> answer_typed (cacheable_reply dump obj)"
  by (auto simp: cacheable_reply_def answer_typed_def STRING_KEYS_def split: sum.splits intro!: typed_put)

lemma geo_merge_typed: "typed c \<Longrightarrow> typed a \<Longrightarrow> typed (geo_merge ip c a)"
proof -
  assume typed: "typed c" "typed a"
  have base: "typed (obj_of [(''ip'', JStr ip), (''found'', JBool False)])" by (rule typed_of) (simp add: STRING_KEYS_def)
  with typed typed_member [OF typed(1)] show ?thesis
    by (auto simp: geo_merge_def Let_def split: option.splits intro!: typed_put typed_update)
qed

lemma geo_reply_typed: "answer_typed (geo_reply lib dump svc ip)"
proof -
  have "typed (geo_answer lib svc ip)" unfolding geo_answer_def by (intro geo_merge_typed database_typed)
  then show ?thesis using cacheable_typed by (auto simp: geo_reply_def answer_typed_def)
qed

lemma oui_typed: "typed (result_of (OUIDatabase_lookup sq this mac))"
proof -
  have "typed (foldl (put_column sq stmt key) obj OUI_COLUMNS)" if "typed obj" for stmt key obj
    using that by (rule typed_foldl) (auto simp: put_column_def OUI_COLUMNS_def STRING_KEYS_def split: option.splits intro!: typed_put)
  moreover have "typed [(''error'', JStr s)]" "typed []" for s by (simp_all add: typed_def obj_ok_def STRING_KEYS_def)
  moreover have "typed (obj_of [(''mac'', JStr m), (''oui'', JStr oui), (''found'', JBool b)])" for m oui b
    by (rule typed_of) (simp add: STRING_KEYS_def)
  ultimately show ?thesis by (simp add: OUIDatabase_lookup_def Let_def split: option.splits)
qed

lemma mac_reply_typed: "answer_typed (mac_reply sq dump svc mac)"
  using oui_typed [of sq "oui_db svc" mac] cacheable_typed by (auto simp: mac_reply_def Let_def answer_typed_def)

end
