(* ===== verification/Spec2Isabelle.thy ===== *)
theory Spec2Isabelle
  imports Program_Run Concurrent_Lookups Answer_Types
begin

text \<open>
  A verification of \<open>ip_server\<close>, a C++ HTTP service that answers where an IP address is (two
  MaxMind databases), who made the network card with a given MAC address (the OUI registry in an SQLite
  database), and that generates passwords.

  \<^bold>\<open>The program.\<close> \<open>main.cpp\<close> reads the configuration
  (\<open>config.cpp\<close>, \<open>paths.cpp\<close>), sets up logging (\<open>logger.cpp\<close>), opens the
  databases behind the two lookup services (\<open>service/\<close>, \<open>database/\<close>,
  \<open>mac_database.cpp\<close>), gives their \<open>lookup\<close> methods to the server as handlers and
  starts it. The server (\<open>http_server.cpp\<close>) passes every lookup request through a gate: API key
  (\<open>auth.cpp\<close>), client address, rate limiter (\<open>rate_limiter.cpp\<close>); then it validates
  the query (\<open>validation.cpp\<close>), calls the handler, counts the request (\<open>metrics.cpp\<close>)
  and sends the answer. A handler asks the sharded LRU cache (\<open>cache.h\<close>) before the database. The
  password routes (\<open>password_handler.cpp\<close>, \<open>password_generator.cpp\<close>) bypass the gate.
  A second thread cleans the rate limiter; a signal ends the program.

  \<^bold>\<open>Theories\<close>, with the files under \<open>src/src/\<close> they model:

  \<^item> \<open>Prelude\<close>: the outcome of a call (\<open>Return\<close>, \<open>Throw\<close>,
    \<open>Undefined\<close>), machine integers, rounded double arithmetic, lemmas on lists and association
    lists.
  \<^item> \<open>Std_List\<close>: \<open>std::list\<close> with stable iterators. Using an erased iterator is
    \<open>Undefined\<close>, so that the theorems on the cache and the limiter show that no stored iterator
    dangles.
  \<^item> \<open>Json\<close>: \<open>nlohmann::json\<close> values; \<open>Std_Parse\<close>:
    \<open>std::stoi\<close> and its relatives.
  \<^item> \<open>Cache_Shard\<close>, \<open>IP_Cache\<close> (\<open>cache.h\<close>): a shard refines a
    recency-ordered list over every sequence of calls; budget, termination of the eviction loop, what
    \<open>get\<close> returns after \<open>put\<close>, counters. The locale \<open>lookup_cache\<close> is
    what the services rely on.
  \<^item> \<open>Rate_Limiter\<close> (\<open>rate_limiter.h\<close>, \<open>rate_limiter.cpp\<close>):
    \<open>is_allowed\<close> is the sliding window in every run that sees no more addresses than the table
    holds, where \<open>cleanup\<close> changes no decision; in every run the table stays bounded and its
    iterators valid.
  \<^item> \<open>Auth\<close>, \<open>Metrics\<close>, \<open>Validation\<close>, \<open>Paths\<close>,
    \<open>Logger\<close>: the files of these names.
  \<^item> \<open>Resource\<close>: programs over movable owners of a handle; the locale
    \<open>movable_resource\<close> gives that each handle is released exactly once. \<open>Mac_Database\<close>
    and \<open>Maxmind_Database\<close> interpret it, and describe the answers of a lookup.
  \<^item> \<open>Lookup_Service\<close> (\<open>service/\<close>, \<open>types.h\<close>): the locale
    \<open>lookup_service\<close> and its interpretation for both services: the cache is invisible in the
    answers. It follows (\<open>sublocale\<close>) from \<open>cached_service\<close>, the laws of the two parts
    of a lookup that touch the cache. \<open>Concurrent_Lookups\<close> interleaves these parts among any number
    of threads: the answers stay the same and no thread waits for another.
  \<^item> \<open>Password_Generator\<close>, \<open>Password_Handler\<close>: length, alphabet and required
    classes of a password; every outcome of the two endpoints.
  \<^item> \<open>Config\<close>: precedence of command line, file and defaults; validation; round trip through
    the file.
  \<^item> \<open>Http\<close>, \<open>Http_Server\<close>: requests, responses, the gate, all endpoints and the
    routing table (\<open>serve\<close>). The locale \<open>query_handler\<close> is what a lookup route expects
    of its handler.
  \<^item> \<open>Server_Lifecycle\<close>: \<open>start\<close>, \<open>stop\<close>, the cleanup thread and
    the signal handler as a step relation: a shutdown completes, and \<open>start\<close> returns what it
    should.
  \<^item> \<open>Application\<close> (\<open>main.cpp\<close>): construction of the application
    (\<open>build_application\<close>), exit codes (\<open>main_program\<close>), interpretation of
    \<open>query_handler\<close> for the real services.
  \<^item> \<open>Serving\<close>: runs of the built application, one request after the other, and their invariant.
  \<^item> \<open>Request_Threads\<close>: the lookup endpoints cut into the steps at which a thread touches shared
    state (the gate, the probe of a cache, the query and the filling of the cache, the metrics, the futures of a
    batch). A thread that is not interrupted computes what \<open>serve\<close> computes.
  \<^item> \<open>Concurrent_Server\<close>: the running server as a step relation, in which any number of
    requests, the threads of their batches and the cleanup thread interleave in every way. The invariant of
    \<open>Serving\<close> holds in every reachable state, together with what each thread has established.
  \<^item> \<open>Program_Run\<close>: the run of \<open>run_application\<close> as a whole. Its steps are those of
    \<open>Server_Lifecycle\<close> and of \<open>Concurrent_Server\<close>, synchronised where the listener accepts
    requests and waits for them and where the cleanup thread makes a pass, and the destruction of the local
    variables and members in reverse order. Each run projects to runs of the two parts, so that what is proved of
    them holds in it.
  \<^item> \<open>Answer_Types\<close>: the JSON schema of the answers of both services.

  The leading properties, on whole runs, are in this theory: no thread is ever stuck, the answers are those of the
  databases and keep to their schema, the rate limit, the keys and the request counter, all in every
  interleaving; no thread touches a destroyed object, a requested shutdown ends the program with every accepted
  request answered, what the exit code says; and the startup.

  \<^bold>\<open>State.\<close> A class is a record with the names of its members; a method is a function from
  the object to an outcome with the new object. The handlers take the server object, the request, the response
  and a \<open>World\<close> (number of clock readings so far, state of the random engine, the two services) and
  return them with the response or with the exception that leaves the handler; what was changed before the
  exception stays changed. Counters are 64-bit words and wrap; \<open>int\<close> is unbounded where the program
  cannot overflow it and is converted by \<open>cast_int\<close> where it can.

  \<^bold>\<open>Parameters.\<close> What is not in the repository is an argument, most of it a field of
  \<open>Env\<close>: JSON serialiser and parser, the clocks (the \<open>n\<close>-th reading is a function of
  \<open>n\<close>), SHA-256, \<open>inet_pton\<close> and \<open>getaddrinfo\<close>, \<open>std::hash\<close>,
  libmaxminddb, SQLite, the random distributions, the order in which the threads of a batch run, the rounding of
  doubles, spdlog, cxxopts' parse result, and the file system. Of cpp-httplib the model uses that \<open>listen\<close> returns
  true only after \<open>stop\<close> and, in either case, only when its workers have finished; of the standard library, that the
  destructors of \<open>std::jthread\<close> and of the futures of \<open>std::async\<close> wait for their threads. The hypotheses on them are named:
  \<open>env_ok\<close> (rounding is monotone and exact on integers up to \<open>2^53\<close>, the steady clock
  is monotone, distributions stay in their range, every thread of a batch runs once, a successful
  \<open>sqlite3_prepare_v2\<close> yields a statement), \<open>rng_ok\<close>, \<open>ieee_rounding\<close>,
  \<open>dump_ok\<close> (text in ASCII can be serialised), and \<open>no_collision\<close> (for the keys
  concerned). \<open>toy_env\<close> satisfies those on the environment, and the witnesses use it.

  \<^bold>\<open>Termination.\<close> No definition uses fuel. The loops are structural recursions, but for the
  eviction loop of the shard and the line reader of the key file, which are \<open>function\<close>s with a
  termination proof. That requests return is stated as such (\<open>server_progress\<close>: no step is undefined,
  each shortens what its thread has left in a well-founded order, and every thread can reach its reply), and so is
  that a requested shutdown leaves a bounded number of steps of work and no deadlock
  (\<open>shutdown_completes\<close>), and that from there the whole program can run to its end
  (\<open>program_exits\<close>).

  \<^bold>\<open>Not modelled.\<close> The \<open>LOG_\<close> macros (their output is kept only for the
  configuration summary and the banner); interleavings inside a method of the cache, the limiter, the key store
  and the OUI database, since each runs under its mutex, with the clock read inside; interleavings inside
  the root, health and password endpoints, which are one step each (what they change of the shared state are the
  metrics, and nothing they change there depends on what they read), and between the counter and the
  latencies that \<open>record_request\<close> updates; that the threads of a batch are started one by
  one, as the first may run before the last is created, which their order covers; the limit on threads that the
  pool of the HTTP library sets; the thread-local engines of the password generator, of which one is modelled; cpp-httplib (sockets, parsing of requests, default error pages), spdlog and the other libraries; the
  installation of signal handlers; the seeding of the random engine; running out of memory or of
  threads; tests, benchmarks and build files.

  The model also shows where the code departs from its intention: a shard can exceed its budget when a key is
  overwritten, a required character class can be lost from a password, numbers of the configuration file and of
  a password request wrap before they are checked, and the password routes are not gated. Each is a theorem of
  the component's theory.
\<close>

section \<open>A concrete application\<close>

definition toy_files :: file_system where
  "toy_files = (\<lambda>p. if p = ''keys'' then Some (''# keys'' @ [CHR 0x0A] @ ''ab'') else None)"

lemma toy_env_good: "env_ok toy_env"
  by (auto simp: env_ok_def toy_env_def ieee_rounding_id zero_rng_ok mono_def toy_sqlite_def)

lemma toy_built: "\<exists>srv0 w0. build_application toy_env files config 0 0 = Return (srv0, w0) \<and>
  srv0 = set_cache_stats_handler combined_cache_stats (set_mac_lookup_handler (mac_handler toy_env)
    (set_lookup_handler (geo_handler toy_env) (IPGeoHTTPServer_new toy_env files config 0))) \<and> tick w0 = 1"
proof -
  obtain c where "IPCache_new DEFAULT_MAX_MEMORY 8 = Return c"
    using IPCache_new_ok [of 8 DEFAULT_MAX_MEMORY] by auto
  moreover obtain d where "IPCache_new (50 * 1024 * 1024) 8 = Return d"
    using IPCache_new_ok [of 8 "50 * 1024 * 1024"] by auto
  moreover have lib: "env_mmdb toy_env = toy_mmdb" "env_sqlite toy_env = toy_sqlite" by (simp_all add: toy_env_def)
  moreover have "\<exists>geo. fst (IPGeoService_new toy_mmdb p q) = Return geo" for p q
    using calculation by (simp add: IPGeoService_new_def MaxMindDatabase_new_def toy_mmdb_def)
  ultimately obtain geo where "fst (IPGeoService_new toy_mmdb (cfg_city_db_path config) (cfg_asn_db_path config)) = Return geo"
    "fst (MACLookupService_new toy_sqlite (cfg_oui_db_path config)) =
       Return \<lparr>oui_db = \<lparr>db = Some 1, lookup_stmt = Some 2, oui_is_open = True\<rparr>, mac_cache = d\<rparr>"
    by (auto simp: MACLookupService_new_def toy_open)
  with lib show ?thesis by (simp add: build_application_def Let_def) (simp add: toy_env_def)
qed

lemma toy_admitted:
  assumes built: "build_application toy_env toy_files ServerConfig_default 0 0 = Return (srv0, w0)"
    and r: "r \<in> {Lookup_get, Lookup_post}" and ip: "get_real_client_ip req = ''10.0.0.1''"
  shows "admission toy_env r srv0 req w0 = Some ''10.0.0.1''"
proof -
  have srv: "enable_rate_limiter srv0 \<longrightarrow> rate_limiter srv0 = Some (RateLimiter_new 100 (seconds 60) DEFAULT_MAX_IP_RECORDS)"
    "\<not> enable_api_auth srv0"
    using toy_built [of toy_files ServerConfig_default] built
    by (auto simp: set_cache_stats_handler_def set_mac_lookup_handler_def set_lookup_handler_def
        IPGeoHTTPServer_new_def ServerConfig_default_def)
  have "\<exists>rl. is_allowed a b ip (RateLimiter_new 100 (seconds 60) DEFAULT_MAX_IP_RECORDS) = Return (True, rl)" for a b ip
    by (simp add: is_allowed_def RateLimiter_new_def DEFAULT_MAX_IP_RECORDS_def Let_def)
  with srv(1) prepare_allowed [OF toy_env_ok(1), of srv0 req w0 "setup_cors Response_new"] srv(2) ip obtain rl n where
    "prepare_request toy_env srv0 req (setup_cors Response_new) w0 =
      Return (Inr (Some ''10.0.0.1'', setup_cors Response_new), srv0\<lparr>rate_limiter := rl\<rparr>, ticked n w0)"
    by (auto simp: authorized_def)
  with r show ?thesis by (simp add: admission_def)
qed

lemma toy_query_valid: "query_valid toy_env False ''8.8.8.8''"
  by (simp add: query_valid_def isValidIpFormat_def c_str_def toy_env_def)

section \<open>Requests one after the other\<close>

text \<open>The running application never gets stuck: in every state that requests on any route and passes
  of the cleanup thread lead to from the built application, every further request on every route
  is handled to completion (with a response, or an exception for the HTTP library to turn into
  one) without undefined behaviour, the cleanup thread's pass completes too, and of the server
  object only the rate limiter and the metrics have changed.\<close>

lemma application_completes:
  assumes "env_ok env" and "build_application env files config n seed = Return (srv0, w0)"
    and "app_run env srv0 w0 srv w G C"
  shows "(\<exists>x srv' w'. serve env r srv req w = Return (x, srv', w') \<and> same_server srv0 srv') \<and>
    (enable_rate_limiter srv \<longrightarrow> (\<exists>srv' w'. cleanup_pass env srv w = Return (srv', w') \<and> same_server srv0 srv'))"
  using serve_completes [OF assms(1) app_run_ok [OF assms], of r req] build_application_parts(1,2) [OF assms(2)]
    cleanup_completes [OF assms(1) app_run_ok [OF assms]]
  by (auto simp: completes_def app_ok_def)

text \<open>A lookup answers the same throughout the life of the server: after any run, a GET request that the
  gate admits and that names one well-formed address (or none, for the client's own) is answered
  200 with the serialisation of what the databases opened at the start say about that address,
  whatever the caches hold, and counts as one request without error.\<close>

lemma application_get_lookup:
  assumes "env_ok env" and "build_application env files config n seed = Return (srv0, w0)"
    and "app_run env srv0 w0 srv w G C" and "admission env Lookup_get srv req w = Some client_ip"
    and "get_param_value req ''mac'' = [] \<or> get_param_value req ''ip'' = []"
    and "lookup_query req client_ip = (is_mac, q)" and "query_valid env is_mac q"
    and "env_dump env ((if is_mac then mac_answers env w0 else geo_answers env w0) q) = Inr s"
  shows "answered srv 1 s (serve env Lookup_get srv req w)"
  by (rule get_answered [OF assms(1) app_run_ok [OF assms(1-3)] build_application_parts(1) [OF assms(2)]
        build_application_parts(2) [OF assms(2)] assms(4-8)])

text \<open>The same for a batch: after any run, an admitted POST request whose body holds an array of at most
  \<open>max_batch_size\<close> items under exactly one of the two keys is answered 200 with the array of the
  answers for its well-formed addresses, in the order of the request and in whatever order the
  threads of a large batch ran; every one of them counts as a request.\<close>

lemma application_batch_lookup:
  assumes "env_ok env" and "build_application env files config n seed = Return (srv0, w0)"
    and "app_run env srv0 w0 srv w G C" and "admission env Lookup_post srv req w = Some client_ip"
    and "env_parse env (req_body req) = Inr body"
    and "json_array body (if is_mac then ''macs'' else ''ips'') = Some items"
    and "json_array body (if is_mac then ''ips'' else ''macs'') = None"
    and "int (length items) \<le> cfg_max_batch_size config"
    and "qs = filter (query_valid env is_mac) (json_strings items)"
    and "env_dump env (JArr (map (if is_mac then mac_answers env w0 else geo_answers env w0) qs)) = Inr s"
  shows "answered srv (length qs) s (serve env Lookup_post srv req w)"
  using post_answered [OF assms(1) app_run_ok [OF assms(1-3)] build_application_parts(1) [OF assms(2)]
      build_application_parts(2) [OF assms(2)] assms(4-7) _ assms(9,10)] assms(8) build_application_parts(3) [OF assms(2)]
  by simp

text \<open>With the rate limiter enabled, no client address gets more than \<open>max_requests_per_minute\<close> lookup
  requests past the gate within a minute, in any run in which at most 10000 client addresses were
  seen, whatever requests and cleanup passes are interleaved.\<close>

lemma application_rate_limit:
  assumes "env_ok env" and "build_application env files config n seed = Return (srv0, w0)"
    and "app_run env srv0 w0 srv w G C" and "cfg_enable_rate_limiter config" and "card C \<le> DEFAULT_MAX_IP_RECORDS"
  shows "length (recent (seconds 60) (env_steady env (tick w)) (G ip)) \<le> nat (cfg_max_requests_per_minute config)"
proof -
  note ok = app_run_ok [OF assms(1-3)]
  have "enable_rate_limiter srv"
    using ok assms(4) same_server_fields(6) build_application_parts(6) [OF assms(2)] by (auto simp: app_ok_def)
  with ok obtain rl where "limiter_state env (cfg_max_requests_per_minute config) G C rl (tick w)"
    by (auto simp: app_ok_def server_ok_def)
  from state_admissions_bounded [OF this app_run_finite [OF assms(3)] assms(5)] show ?thesis .
qed

text \<open>With authentication on, who may look something up is what the configuration says: at any time of
  any run a request is authorised iff its header is \<open>Authorization: Bearer <key>\<close> with the default key
  or a key of the key file as it was at the start, provided no two of the strings concerned have
  the same digest.\<close>

lemma application_keys:
  assumes "env_ok env" and "build_application env files config n seed = Return (srv0, w0)"
    and "app_run env srv0 w0 srv w G C" and "cfg_enable_api_auth config"
    and "no_collision (env_sha256 env) (insert (drop 7 (get_header_value req ''Authorization'')) (configured_keys files config))"
  shows "authorized env srv req \<longleftrightarrow>
    (\<exists>key\<in>configured_keys files config. get_header_value req ''Authorization'' = ''Bearer '' @ key)"
  using app_run_ok [OF assms(1-3)] configured_authorized [OF assms(2) _ assms(4,5)] by (auto simp: app_ok_def)

section \<open>The running server\<close>

lemma toy_handlers: "build_application toy_env toy_files config 0 0 = Return (srv0, w0) \<Longrightarrow>
    lookup_handler srv0 = Some (geo_handler toy_env) \<and> mac_lookup_handler srv0 = Some (mac_handler toy_env)"
  using build_application_parts(1,2) by blast

definition arrived :: "IPGeoHTTPServer \<Rightarrow> World \<Rightarrow> route \<Rightarrow> Request \<Rightarrow> System" where
  \<comment> \<open>the server right after its first request has come in\<close>
  "arrived srv w r req = \<lparr>sys_server = srv, sys_world = w, sys_threads = [0 \<mapsto> thread_start r req],
     sys_admitted = (\<lambda>_. []), sys_clients = {get_real_client_ip req}\<rparr>"

lemma arrived_sel [simp]:
  "sys_server (arrived srv w r req) = srv" "sys_world (arrived srv w r req) = w"
  "sys_threads (arrived srv w r req) = [0 \<mapsto> thread_start r req]" "sys_clients (arrived srv w r req) = {get_real_client_ip req}"
  by (simp_all add: arrived_def)

lemma arrived_run: "system_run env (system_start srv w) (arrived srv w r req)"
  using system_step.arrive [where s = "system_start srv w" and i = 0 and env = env and r = r and req = req] by (auto simp: system_start_def arrived_def)

lemma toy_replied:
  assumes built: "build_application toy_env toy_files ServerConfig_default 0 0 = Return (srv0, w0)"
    and ip: "get_real_client_ip req = ''10.0.0.1''" and r: "r = Lookup_get \<or> r = Lookup_post"
  obtains s t x ip where "system_run toy_env (system_start srv0 w0) s" "sys_threads s = [0 \<mapsto> t]" "th_route t = r" "th_request t = req"
    "th_client t = Some ip" "th_at t = Replied x" "sys_clients s = {''10.0.0.1''}"
proof -
  let ?s = "arrived srv0 w0 r req"
  have r': "r \<in> {Lookup_get, Lookup_post}" using r by auto
  from admitted_gate [OF toy_env_good build_app_ok [OF toy_env_good built] toy_admitted [OF built r' ip]] obtain rl n where
    "prepare_request toy_env srv0 req cors w0 = Return (Inr (Some ''10.0.0.1'', cors), srv0\<lparr>rate_limiter := rl\<rparr>, ticked n w0)" by blast
  from gate_alone [OF this] r have "(own_step toy_env r req)\<^sup>*\<^sup>* (Arrived, srv0, w0) (Admitted ''10.0.0.1'', srv0\<lparr>rate_limiter := rl\<rparr>, ticked n w0)"
    by (auto simp: after_gate_def)
  from own_run_system [OF this refl, of ?s 0 "thread_start r req"] obtain s1 t1 where
    s1: "request_run toy_env ?s s1" "only_thread ?s 0 t1 s1" "th_at t1 = Admitted ''10.0.0.1''" by (auto simp: thread_start_def)
  have run1: "system_run toy_env (system_start srv0 w0) s1" using arrived_run request_run_system [OF s1(1)] by (rule rtranclp_trans)
  have t1: "sys_threads s1 = [0 \<mapsto> t1]" "th_route t1 = r" "th_request t1 = req"
    using s1(2) by (auto simp: only_thread_def thread_start_def)
  note ok = system_ok_run [OF toy_env_good built run1]
  then have client: "th_client t1 = Some ''10.0.0.1''" using t1 s1(3) by (auto simp: system_ok_def thread_ok_def)
  from thread_replies [OF toy_env_good _ _ ok, of 0 t1] toy_handlers [OF built] t1(1) obtain s2 t2 x where
    s2: "request_run toy_env s1 s2" "only_thread s1 0 t2 s2" "th_at t2 = Replied x" by auto
  have "sys_clients s2 = {''10.0.0.1''}" "sys_threads s2 = [0 \<mapsto> t2]" "th_route t2 = r" "th_request t2 = req" "th_client t2 \<noteq> None"
    using s1(2) s2(2) t1 client ip by (auto simp: only_thread_def)
  then show thesis using that [OF rtranclp_trans [OF run1 request_run_system [OF s2(1)]]] s2(3) by blast
qed

lemma toy_batch: "batch_target toy_env (cfg_max_batch_size ServerConfig_default) (toy_request\<lparr>req_body := ''ips''\<rparr>) = Some (False, [''8.8.8.8''])"
proof -
  let ?items = "[JStr ''8.8.8.8'', JInt 1, JStr ''x'']"
  have "env_parse toy_env ''ips'' = Inr (JObj [(''ips'', JArr ?items)])" by (simp add: toy_env_def)
  moreover have "json_array (JObj [(''ips'', JArr ?items)]) ''ips'' = Some ?items" "json_array (JObj [(''ips'', JArr ?items)]) ''macs'' = None"
    by (simp_all add: json_array_def json_at_def)
  moreover have "\<not> query_valid toy_env False ''x''" by (simp add: query_valid_def isValidIpFormat_def c_str_def toy_env_def)
  ultimately show ?thesis using toy_query_valid by (simp add: batch_target_def json_strings_def List.map_filter_simps ServerConfig_default_def)
qed

text \<open>C1: The running server never gets stuck: in every state that any interleaving of request threads, of the
  threads of their batches and of the cleanup thread leads to, each step a thread is ready for
  completes without undefined behaviour, changes nothing of the server object but the rate limiter
  and the metrics, and brings the thread closer to its reply in a well-founded order; every thread can
  get to its reply without the help of any other; and the cleanup thread can always do its pass.\<close>

theorem server_progress:
  assumes "env_ok env" and "build_application env files config n seed = Return (srv0, w0)"
    and "system_run env (system_start srv0 w0) s" and "sys_threads s i = Some t"
  shows "(\<forall>k. ready k (th_at t) \<longrightarrow> (\<exists>a srv w. advance env (th_route t) (th_request t) k (th_at t) (sys_server s) (sys_world s) =
       Return (a, srv, w) \<and> same_server srv0 srv \<and> shorter a (th_at t))) \<and> wf {(a', a). shorter a' a} \<and>
    (\<exists>s' t' x. request_run env s s' \<and> only_thread s i t' s' \<and> th_at t' = Replied x) \<and>
    (enable_rate_limiter (sys_server s) \<longrightarrow> (\<exists>srv w. cleanup_pass env (sys_server s) (sys_world s) = Return (srv, w)))"
proof -
  note h = build_application_parts(1,2) [OF assms(2)] and ok = system_ok_run [OF assms(1-3)]
  have "\<exists>a srv w. advance env (th_route t) (th_request t) k (th_at t) (sys_server s) (sys_world s) = Return (a, srv, w) \<and>
      same_server srv0 srv \<and> shorter a (th_at t)" if "ready k (th_at t)" for k
    using thread_goes [OF assms(1) h ok assms(4) that] by (auto simp: goes_well_def app_ok_def)
  moreover have "\<exists>srv w. cleanup_pass env (sys_server s) (sys_world s) = Return (srv, w)" if "enable_rate_limiter (sys_server s)"
    using cleanup_completes [OF assms(1) conjunct1 [OF ok [unfolded system_ok_def]] that] by blast
  ultimately show ?thesis using thread_replies [OF assms(1) h ok assms(4)] wf_shorter by blast
qed

theorem server_progress_witness:
  "\<exists>srv0 w0 s' t' x. build_application toy_env toy_files ServerConfig_default 0 0 = Return (srv0, w0) \<and>
     request_run toy_env (arrived srv0 w0 Lookup_get toy_request) s' \<and> sys_threads s' = [0 \<mapsto> t'] \<and> th_at t' = Replied x"
proof -
  obtain srv0 w0 where built: "build_application toy_env toy_files ServerConfig_default 0 0 = Return (srv0, w0)"
    using toy_built by blast
  from server_progress [OF toy_env_good built arrived_run [of toy_env srv0 w0 Lookup_get toy_request], of 0 "thread_start Lookup_get toy_request"] built
  show ?thesis by (fastforce simp: only_thread_def)
qed

text \<open>C2: However the threads interleave, a lookup answers what the databases say: a GET request that the gate
  admitted and that names one well-formed address (or none, for the client's own) is answered 200 with the
  serialisation of what the databases opened at the start say about that address, whatever other
  requests did to the caches in the meantime, and has counted as one request.\<close>

theorem server_get_lookup:
  assumes "env_ok env" and "build_application env files config n seed = Return (srv0, w0)"
    and "system_run env (system_start srv0 w0) s" and "sys_threads s i = Some t"
    and "th_route t = Lookup_get" and "th_at t = Replied x" and "th_client t = Some ip"
    and "get_target env (th_request t) ip = Some (is_mac, q)"
    and "env_dump env ((if is_mac then mac_answers env w0 else geo_answers env w0) q) = Inr json"
  shows "sent json x \<and> th_counted t = 1"
proof -
  have "thread_ok env srv0 (answer_of (geo_answers env w0) (mac_answers env w0)) (sys_clients s) t"
    using system_ok_run [OF assms(1-3)] assms(4) by (auto simp: system_ok_def ran_def)
  with assms(5-9) show ?thesis by (auto simp: thread_ok_def replied_ok_def answer_of_def)
qed

theorem server_get_lookup_witness:
  "\<exists>srv0 w0 s t x. build_application toy_env toy_files ServerConfig_default 0 0 = Return (srv0, w0) \<and>
     system_run toy_env (system_start srv0 w0) s \<and> sys_threads s = [0 \<mapsto> t] \<and> th_at t = Replied x \<and> sent ''json'' x"
proof -
  let ?req = "toy_request\<lparr>get_param_value := \<lambda>k. if k = ''ip'' then ''8.8.8.8'' else []\<rparr>"
  obtain srv0 w0 where built: "build_application toy_env toy_files ServerConfig_default 0 0 = Return (srv0, w0)"
    using toy_built by blast
  have ip: "get_real_client_ip ?req = ''10.0.0.1''" by (simp add: get_real_client_ip_def toy_request_def)
  obtain s t x ip where s: "system_run toy_env (system_start srv0 w0) s" "sys_threads s = [0 \<mapsto> t]" "th_route t = Lookup_get"
    "th_request t = ?req" "th_client t = Some ip" "th_at t = Replied x" "sys_clients s = {''10.0.0.1''}"
    by (rule toy_replied [OF built ip disjI1 [OF refl]])
  have "get_target toy_env (th_request t) ip = Some (False, ''8.8.8.8'')"
    using s(4) toy_query_valid by (simp add: get_target_def lookup_query_def)
  from server_get_lookup [OF toy_env_good built s(1) _ s(3,6,5) this, of 0 "''json''"] s built show ?thesis
    by (auto simp: toy_env_def)
qed

text \<open>C3: The same for a batch: an admitted POST request whose body holds an array of at most
  \<open>max_batch_size\<close> items under exactly one of the two keys is answered 200 with the array of the
  answers for its well-formed addresses, in the order of the request, however the threads of the batch
  and of other requests interleave; every one of the addresses has counted as a request.\<close>

theorem server_batch_lookup:
  assumes "env_ok env" and "build_application env files config n seed = Return (srv0, w0)"
    and "system_run env (system_start srv0 w0) s" and "sys_threads s i = Some t"
    and "th_route t = Lookup_post" and "th_at t = Replied x" and "th_client t \<noteq> None"
    and "batch_target env (cfg_max_batch_size config) (th_request t) = Some (is_mac, qs)"
    and "env_dump env (JArr (map (if is_mac then mac_answers env w0 else geo_answers env w0) qs)) = Inr json"
  shows "sent json x \<and> th_counted t = of_nat (length qs)"
proof -
  have "thread_ok env srv0 (answer_of (geo_answers env w0) (mac_answers env w0)) (sys_clients s) t"
    using system_ok_run [OF assms(1-3)] assms(4) by (auto simp: system_ok_def ran_def)
  with assms(5-9) build_application_parts(3) [OF assms(2)] show ?thesis
    by (auto simp: thread_ok_def replied_ok_def answer_of_def)
qed

theorem server_batch_lookup_witness:
  "\<exists>srv0 w0 s t x. build_application toy_env toy_files ServerConfig_default 0 0 = Return (srv0, w0) \<and>
     system_run toy_env (system_start srv0 w0) s \<and> sys_threads s = [0 \<mapsto> t] \<and> th_at t = Replied x \<and> sent ''json'' x"
proof -
  let ?req = "toy_request\<lparr>req_body := ''ips''\<rparr>"
  obtain srv0 w0 where built: "build_application toy_env toy_files ServerConfig_default 0 0 = Return (srv0, w0)"
    using toy_built by blast
  have ip: "get_real_client_ip ?req = ''10.0.0.1''" by (simp add: get_real_client_ip_def toy_request_def)
  obtain s t x ip where s: "system_run toy_env (system_start srv0 w0) s" "sys_threads s = [0 \<mapsto> t]" "th_route t = Lookup_post"
    "th_request t = ?req" "th_client t = Some ip" "th_at t = Replied x" "sys_clients s = {''10.0.0.1''}"
    by (rule toy_replied [OF built ip disjI2 [OF refl]])
  have "batch_target toy_env (cfg_max_batch_size ServerConfig_default) (th_request t) = Some (False, [''8.8.8.8''])"
    using s(4) toy_batch by simp
  from server_batch_lookup [OF toy_env_good built s(1) _ s(3,6) _ this, of 0 "''json''"] s built show ?thesis
    by (auto simp: toy_env_def)
qed









text \<open>C12: The answers keep to their schema: in every state of the running server, a lookup of any string by either
  handler returns an object with each key once and in order, in which \<open>found\<close> is a boolean, \<open>latitude\<close> and
  \<open>longitude\<close> are floating-point numbers, \<open>as_number\<close> is a 32-bit integer, and every other member is one of the
  documented keys with a string; that holds for answers from the cache, for errors of the databases and for
  answers that cannot be serialised.\<close>

theorem server_answers_typed:
  assumes "env_ok env" and "build_application env files config n seed = Return (srv0, w0)"
    and "system_run env (system_start srv0 w0) s"
  shows "(\<exists>r w. geo_handler env q (sys_world s) = Return (r, w) \<and> answer_typed (lr_data r)) \<and>
    (\<exists>r w. mac_handler env q (sys_world s) = Return (r, w) \<and> answer_typed (lr_data r))"
proof -
  have world: "app_world env (geo_answers env w0) (mac_answers env w0) 0 (sys_world s)"
    using system_ok_run [OF assms] by (simp add: system_ok_def app_ok_def)
  from geo_queries.handler_law [OF world, of q] mac_queries.handler_law [OF world, of q] show ?thesis
    using geo_reply_typed mac_reply_typed by fastforce
qed

theorem server_answers_typed_witness:
  "\<exists>srv0 w0 r w. build_application toy_env toy_files ServerConfig_default 0 0 = Return (srv0, w0) \<and>
     geo_handler toy_env ''8.8.8.8'' w0 = Return (r, w) \<and> answer_typed (lr_data r)"
proof -
  obtain srv0 w0 where built: "build_application toy_env toy_files ServerConfig_default 0 0 = Return (srv0, w0)"
    using toy_built by blast
  from server_answers_typed [OF toy_env_good built rtranclp.rtrancl_refl, of "''8.8.8.8''"] built show ?thesis
    by (auto simp: system_start_def)
qed

section \<open>The whole program\<close>

lemma toy_program:
  assumes "build_application toy_env toy_files ServerConfig_default 0 0 = Return (srv0, w0)"
  obtains p where "program_run toy_env (program_start srv0 w0) p" "sys_threads (served p) = [0 \<mapsto> thread_start Lookup_get toy_request]"
    "shutdown_requested (control p)" "server_thread (control p) = Listening"
proof -
  let ?p0 = "program_start srv0 w0" and ?h = "can_start srv0" and ?l = "cleans srv0"
  let ?c = "life_init\<lparr>main_at := Grace, server_thread := Listening, server_running := True,
    cleanup_thread := (if ?l then Cleaner_waiting else No_cleaner)\<rparr>"
  let ?d = "handle_signal ''SIGINT'' ?c"
  have "step ?h ?l life_init ?c"
    using toy_handlers [OF assms] by (intro step.start) (auto simp: life_init_def can_start_def)
  with step.signal [of ?h ?l ?c "''SIGINT''"] have "(step ?h ?l)\<^sup>*\<^sup>* life_init ?d" by auto
  then have "program_run toy_env ?p0 (?p0\<lparr>control := ?d\<rparr>)"
    by (intro control_run) (auto simp: program_start_def system_start_def all_replied_def constructed_def server_members_def
        handle_signal_def life_init_def)
  moreover have "program_step toy_env (?p0\<lparr>control := ?d\<rparr>)
      (?p0\<lparr>control := ?d, served := accepted 0 Lookup_get toy_request (served ?p0)\<rparr>)"
    using program_step.accept [where p = "?p0\<lparr>control := ?d\<rparr>" and i = 0 and r = Lookup_get and req = toy_request]
    by (simp add: program_start_def system_start_def handle_signal_def life_init_def)
  ultimately have "program_run toy_env ?p0 (?p0\<lparr>control := ?d, served := accepted 0 Lookup_get toy_request (served ?p0)\<rparr>)"
    by (rule rtranclp.rtrancl_into_rtrancl)
  then show thesis
    by (rule that) (simp_all add: program_start_def system_start_def handle_signal_def life_init_def)
qed

text \<open>C8: No thread touches a destroyed object: in every state of a run of the program, whatever the caller
  of \<open>start\<close>, the listener, a request, a thread of its batch or the cleanup thread may use in its next
  step has not been destroyed. In particular a pass of the cleanup thread that began before it was told
  to stop never finds the rate limiter gone, and no request outlives the services its handlers refer to.\<close>

theorem program_lifetimes:
  assumes "env_ok env" and "build_application env files config n seed = Return (srv0, w0)"
    and "program_run env (program_start srv0 w0) p"
  shows "in_use p \<subseteq> set (pending p)"
  by (rule in_use_alive [OF program_ok_run [OF assms]])

theorem program_lifetimes_witness:
  "\<exists>srv0 w0 p. build_application toy_env toy_files ServerConfig_default 0 0 = Return (srv0, w0) \<and>
     program_run toy_env (program_start srv0 w0) p \<and> Geo_service \<in> in_use p \<and> in_use p \<subseteq> set (pending p)"
proof -
  obtain srv0 w0 where built: "build_application toy_env toy_files ServerConfig_default 0 0 = Return (srv0, w0)"
    using toy_built by blast
  obtain p where p: "program_run toy_env (program_start srv0 w0) p"
    "sys_threads (served p) = [0 \<mapsto> thread_start Lookup_get toy_request]" by (rule toy_program [OF built])
  have "\<not> all_replied (served p)" using p(2) by (simp add: all_replied_def replied_def thread_start_def)
  then have "Geo_service \<in> in_use p" by (simp add: in_use_def constructed_def)
  with built p(1) program_lifetimes [OF toy_env_good built p(1)] show ?thesis by blast
qed

text \<open>C10: When \<open>start\<close> returns, no request is left behind: every request that was accepted has been replied to,
  the listener has ended with the result of \<open>start\<close>, the cleanup thread has been told to stop, and the
  result is true only if a shutdown was requested. Whatever is proved about the life cycle and about
  the running server holds in the whole program.\<close>

theorem program_answers_all:
  assumes "env_ok env" and "build_application env files config n seed = Return (srv0, w0)"
    and "program_run env (program_start srv0 w0) p" and "main_at (control p) = Returned b"
  shows "all_replied (served p) \<and> system_run env (system_start srv0 w0) (served p) \<and>
    reachable True (cleans srv0) (control p) \<and> server_thread (control p) = Listen_returned b \<and>
    (cleanup_thread (control p) \<noteq> No_cleaner \<longrightarrow> stop_token (control p)) \<and> (b \<longrightarrow> shutdown_requested (control p))"
proof -
  note ok = program_ok_run [OF assms(1-3)]
  have "can_start srv0" using build_application_parts(1) [OF assms(2)] by (simp add: can_start_def)
  with program_returned [OF ok assms(4)] ok show ?thesis by (auto simp: program_ok_def)
qed

theorem program_answers_all_witness:
  "\<exists>srv0 w0 p b. build_application toy_env toy_files ServerConfig_default 0 0 = Return (srv0, w0) \<and>
     program_run toy_env (program_start srv0 w0) p \<and> main_at (control p) = Returned b \<and> sys_threads (served p) \<noteq> Map.empty \<and>
     all_replied (served p)"
proof -
  obtain srv0 w0 where built: "build_application toy_env toy_files ServerConfig_default 0 0 = Return (srv0, w0)"
    using toy_built by blast
  obtain p where p: "program_run toy_env (program_start srv0 w0) p"
    "sys_threads (served p) = [0 \<mapsto> thread_start Lookup_get toy_request]" "shutdown_requested (control p)" by (rule toy_program [OF built])
  from program_finishes [OF toy_env_good built program_ok_run [OF toy_env_good built p(1)] p(3)] obtain p' b where
    p': "program_run toy_env p p'" "main_at (control p') = Returned b" "answers_kept (served p) (served p')"
    by (auto simp: all_done_def)
  have run: "program_run toy_env (program_start srv0 w0) p'" using p(1) p'(1) by (rule rtranclp_trans)
  have "sys_threads (served p') \<noteq> Map.empty" using p'(3) p(2) by (auto simp: answers_kept_def)
  with program_answers_all [OF toy_env_good built run p'(2)] run p'(2) built show ?thesis by blast
qed



section \<open>Startup\<close>

definition quiet_spdlog :: Spdlog where
  "quiet_spdlog = \<lparr>path_exists = (\<lambda>p. True), create_dirs = (\<lambda>p. None),
     open_rotating = (\<lambda>p size n. if size = 0 \<or> 200000 < n then Some (Other_exception ''rotating sink'') else None),
     open_basic = (\<lambda>p. None), level_from_str = (\<lambda>l. 2)\<rparr>"

lemma default_parsed: "parse_config parse_stream dump2 (\<lambda>p. True) some_host (Inr no_options) (\<lambda>p. None) =
    Return (Inr (Some (applyDefaultPaths some_host ServerConfig_default)), (\<lambda>p. None), log_config (applyDefaultPaths some_host ServerConfig_default))"
proof -
  let ?c = "applyDefaultPaths some_host ServerConfig_default"
  have v: "validate ?c = Return ()" by (simp add: validate_iff config_valid_def applyDefaultPaths_def ServerConfig_default_def)
  have skip: "set_opt no_options opt_string ''config'' cfg_config_file_update ?c = ?c" "\<not> opt_contains no_options ''help''"
    by (simp_all add: set_opt_def no_options_def)
  show ?thesis by (simp add: parse_config_def skip no_options_id v Let_def)
qed

lemma default_started:
  assumes "\<And>files. run files (applyDefaultPaths some_host ServerConfig_default) = Return True"
  shows "\<exists>e. main_program parse_stream dump2 (\<lambda>d p. True) (\<lambda>p d. Some d) some_host quiet_spdlog run (Inr no_options) () (\<lambda>p. None) = Return e \<and>
    exit_log e \<noteq> None \<and> exit_code e = 0"
proof -
  have "init_logging quiet_spdlog (LogConfig_of (applyDefaultPaths some_host ServerConfig_default)) = Return [Stdout_color_sink]"
    by (simp add: init_logging_def LogConfig_of_def applyDefaultPaths_def ServerConfig_default_def)
  then show ?thesis by (simp add: main_program_def Let_def default_parsed assms)
qed



text \<open>C22: The configuration survives a restart: when the configuration file a command line refers to does not
  exist, the first start that gets past the logging setup writes it, and a second start with the
  same command line runs with the configuration of the first (but for the path of the file itself,
  which is not stored) and leaves the files as they are, provided the directories made at startup
  make the file writable and the JSON parser reads back what the serialiser wrote.\<close>

theorem restart_keeps_config:
  assumes "fs (config_path h r) = None" and "config_path h r \<noteq> []" and "cli_ints_ok r"
    and "parse_config parse_stream dump2 (writable d) h (Inr r) fs = Return (Inr (Some c), fs1, lines)"
    and "main_program parse_stream dump2 writable create_directories h lib run (Inr r) d fs = Return e" and "exit_log e \<noteq> None"
    and "writable (ensure_directories create_directories h d) (config_path h r)"
    and "dump2 (JObj (to_json c)) = Inr s" and "parse_stream (s @ [CHR 0x0A]) = Inr (JObj (to_json c))"
  shows "\<exists>lines'. parse_config parse_stream dump2 writable' h (Inr r) (exit_files e) =
    Return (Inr (Some (c\<lparr>cfg_config_file := []\<rparr>)), exit_files e, lines')"
proof -
  note first = parse_first_start [OF assms(1,4)]
  have "exit_files e = snd (save_to_file dump2 (writable (ensure_directories create_directories h d)) c (config_path h r) fs)"
    using assms(1,2,4-6) first by (auto simp: main_program_def Let_def split: outcome.splits)
  then have "exit_files e (config_path h r) = Some (s @ [CHR 0x0A])"
    using assms(7,8) by (simp add: save_to_file_def)
  with parse_saved_config [of r h "exit_files e" s parse_stream c] assms(2,3,9) first show ?thesis by blast
qed

theorem restart_keeps_config_witness:
  "\<exists>e lines'. main_program (\<lambda>t. Inr (JObj (to_json (applyDefaultPaths some_host ServerConfig_default)))) (\<lambda>j. Inr ''{}'')
       (\<lambda>d p. True) (\<lambda>p d. Some d) some_host quiet_spdlog (\<lambda>fs c. Return True) (Inr no_options) () (\<lambda>p. None) = Return e \<and>
     parse_config (\<lambda>t. Inr (JObj (to_json (applyDefaultPaths some_host ServerConfig_default)))) (\<lambda>j. Inr ''{}'') (\<lambda>p. True)
       some_host (Inr no_options) (exit_files e) =
     Return (Inr (Some ((applyDefaultPaths some_host ServerConfig_default)\<lparr>cfg_config_file := []\<rparr>)), exit_files e, lines')"
proof -
  let ?c = "applyDefaultPaths some_host ServerConfig_default" and ?dump = "\<lambda>j :: json. Inr ''{}'' :: exn + string"
  let ?parse = "\<lambda>t :: string. Inr (JObj (to_json ?c)) :: exn + json"
  from default_started [of "\<lambda>fs c. Return True" ?parse ?dump] obtain e where
    e: "main_program ?parse ?dump (\<lambda>d p. True) (\<lambda>p d. Some d) some_host quiet_spdlog (\<lambda>fs c. Return True)
      (Inr no_options) () (\<lambda>p. None) = Return e" "exit_log e \<noteq> None" by auto
  have path: "config_path some_host no_options \<noteq> []"
    by (simp add: config_path_def no_options_def default_config_file_def path_append_def)
  have ints: "cli_ints_ok no_options" by (simp add: cli_ints_ok_def no_options_def)
  show ?thesis
    using restart_keeps_config [where writable = "\<lambda>d p. True" and d = "()" and fs = "\<lambda>p. None",
        OF refl path ints default_parsed e TrueI refl refl, of "\<lambda>p. True"] e(1) by blast
qed



end
